theory Spec2Isabelle
  imports Main "HOL-Library.AList" "HOL-Library.Sublist"
begin

section \<open>The lesson packager \<^verbatim>\<open>tools/create_package.py\<close>\<close>

text \<open>
  \<^verbatim>\<open>create_package()\<close> is a straight-line script over the file system: it creates
  the package directory and five subdirectories, copies a fixed manifest of files, copies
  the \<^verbatim>\<open>.png\<close> files of a QR directory, writes a README and archives the
  package directory. The file system is therefore the state of the model. Every library call
  of the script (\<^verbatim>\<open>os.makedirs\<close>, \<^verbatim>\<open>os.path.exists\<close>,
  \<^verbatim>\<open>shutil.copy2\<close>, \<^verbatim>\<open>os.listdir\<close>, \<^verbatim>\<open>open\<close>,
  \<^verbatim>\<open>shutil.make_archive\<close>) is a function on that state which returns either the
  new state or the exception it raises; the console is a list of printed lines.
\<close>

subsection \<open>Paths\<close>

text \<open>
  A path is the list of its components, so \<^verbatim>\<open>os.path.join(p, "a", "b")\<close> is
  \<open>p @ [''a'', ''b'']\<close> whatever the separator of the platform. Strings are byte strings
  (UTF-8); all the names the script builds itself are ASCII.
\<close>

type_synonym path = "string list"

definition basename :: "path \<Rightarrow> string" where
  "basename p = (if p = [] then [] else last p)"

definition dirname :: "path \<Rightarrow> path" where
  "dirname p = butlast p"

definition endswith :: "string \<Rightarrow> string \<Rightarrow> bool" where
  "endswith s suf = suffix suf s"

text \<open>
  \<^verbatim>\<open>os.path.splitext\<close> cuts the last component at its last dot, unless only dots
  come before it; the first half is returned here.
\<close>

definition splitext_root :: "path \<Rightarrow> path" where
  "splitext_root p =
     (let name = basename p;
          ext = rev (takeWhile (\<lambda>c. c \<noteq> CHR ''.'') (rev name));
          stem = take (length name - length ext - 1) name
      in if CHR ''.'' \<in> set name \<and> list_ex (\<lambda>c. c \<noteq> CHR ''.'') stem
         then dirname p @ [stem] else p)"

subsection \<open>The file system\<close>

text \<open>
  A file holds bytes, or a ZIP archive, which is kept as its table of members (archive name,
  and the member's data, \<open>None\<close> for a directory member) rather than as compressed
  bytes. A node is a file with its content and the metadata \<^verbatim>\<open>copystat\<close> copies
  (permission bits, times, flags; a type parameter), or a directory with its named children.
  A name that occurs twice among the children denotes the first one. Links, special files and
  the metadata of directories are not modelled.
\<close>

datatype content = Bytes string | Zip "(string list \<times> content option) list"

datatype 'm node = File content 'm | Dir "(string \<times> 'm node) list"

datatype 'm entry = IsFile content 'm | IsDir

fun lookup :: "'m node \<Rightarrow> path \<Rightarrow> 'm node option" where
  "lookup n [] = Some n"
| "lookup (File c m) (x # xs) = None"
| "lookup (Dir es) (x # xs) = (case map_of es x of None \<Rightarrow> None | Some n \<Rightarrow> lookup n xs)"

fun entry_of :: "'m node \<Rightarrow> 'm entry" where
  "entry_of (File c m) = IsFile c m"
| "entry_of (Dir es) = IsDir"

text \<open>What \<^verbatim>\<open>os.stat\<close> and reading a path show: absent, a directory, or a file.\<close>

definition stat :: "'m node \<Rightarrow> path \<Rightarrow> 'm entry option" where
  "stat t p = map_option entry_of (lookup t p)"

definition exists :: "'m node \<Rightarrow> path \<Rightarrow> bool" where
  "exists t p = (stat t p \<noteq> None)"

definition isdir :: "'m node \<Rightarrow> path \<Rightarrow> bool" where
  "isdir t p = (stat t p = Some IsDir)"

text \<open>
  \<open>put t p new\<close> installs \<open>new\<close> at \<open>p\<close>; the operations below call it only
  when the parent of \<open>p\<close> is a directory, and it changes nothing otherwise.
\<close>

fun put :: "'m node \<Rightarrow> path \<Rightarrow> 'm node \<Rightarrow> 'm node" where
  "put t [] new = new"
| "put (File c m) (x # xs) new = File c m"
| "put (Dir es) (x # xs) new =
     (case map_of es x of
        None \<Rightarrow> (if xs = [] then Dir (es @ [(x, new)]) else Dir es)
      | Some n \<Rightarrow> Dir (AList.update x (put n xs new) es))"

subsection \<open>Exceptions and the environment\<close>

datatype error =
    FileNotFoundError | FileExistsError | NotADirectoryError | IsADirectoryError
  | PermissionError | SameFileError

text \<open>
  A call either returns the new state or raises, and then the state it leaves behind is the
  one reached at the raise: nothing is rolled back.
\<close>

datatype 'a outcome = Done 'a | Raised error 'a

fun and_then :: "'a outcome \<Rightarrow> ('a \<Rightarrow> 'a outcome) \<Rightarrow> 'a outcome" where
  "and_then (Done s) f = f s"
| "and_then (Raised e s) f = Raised e s"

text \<open>
  The environment stands for what the operating system decides: \<open>denied p\<close> says that
  it refuses to create or open for writing the path \<open>p\<close> (permission, full disk, path
  too long), and \<open>stamp\<close> is the metadata it gives to a file written now. Reading is
  never refused.
\<close>

record 'm env =
  denied :: "path \<Rightarrow> bool"
  stamp :: 'm

subsection \<open>The library calls\<close>

text \<open>\<^verbatim>\<open>os.mkdir\<close>.\<close>

definition mkdir :: "'m env \<Rightarrow> 'm node \<Rightarrow> path \<Rightarrow> error + 'm node" where
  "mkdir ev t p =
     (if p = [] then Inl FileExistsError
      else case stat t (dirname p) of
          None \<Rightarrow> Inl FileNotFoundError
        | Some (IsFile c m) \<Rightarrow> Inl NotADirectoryError
        | Some IsDir \<Rightarrow>
            if exists t p then Inl FileExistsError
            else if denied ev p then Inl PermissionError
            else Inr (put t p (Dir [])))"

text \<open>
  \<^verbatim>\<open>os.makedirs(name, exist_ok=True)\<close>, as the standard library writes it: when the
  parent does not exist it is made first (a \<^verbatim>\<open>FileExistsError\<close> from that is
  swallowed), then \<^verbatim>\<open>mkdir(name)\<close> is tried, and its error is swallowed when
  \<open>name\<close> is a directory.
\<close>

function makedirs :: "'m env \<Rightarrow> 'm node \<Rightarrow> path \<Rightarrow> 'm node outcome" where
  "makedirs ev t p =
     (case (if p \<noteq> [] \<and> dirname p \<noteq> [] \<and> \<not> exists t (dirname p)
            then (case makedirs ev t (dirname p) of
                    Done t' \<Rightarrow> Done t'
                  | Raised e t' \<Rightarrow> if e = FileExistsError then Done t' else Raised e t')
            else Done t) of
        Raised e t1 \<Rightarrow> Raised e t1
      | Done t1 \<Rightarrow>
          (case mkdir ev t1 p of
             Inr t2 \<Rightarrow> Done t2
           | Inl e \<Rightarrow> if isdir t1 p then Done t1 else Raised e t1))"
  by pat_completeness auto
termination
  by (relation "measure (\<lambda>(ev, t, p). length p)") (auto simp: dirname_def)

declare makedirs.simps [simp del]

text \<open>
  Opening \<open>p\<close> for writing (\<^verbatim>\<open>open(p, "w")\<close>, \<^verbatim>\<open>"wb"\<close>): the error it
  raises, if any.
\<close>

definition open_w :: "'m env \<Rightarrow> 'm node \<Rightarrow> path \<Rightarrow> error option" where
  "open_w ev t p =
     (case stat t (dirname p) of
        None \<Rightarrow> Some FileNotFoundError
      | Some (IsFile c m) \<Rightarrow> Some NotADirectoryError
      | Some IsDir \<Rightarrow>
          if p = [] \<or> isdir t p then Some IsADirectoryError
          else if denied ev p then Some PermissionError
          else None)"

text \<open>Writing a whole file: it is created or truncated, and gets the metadata of the moment.\<close>

definition write_file :: "'m env \<Rightarrow> 'm node \<Rightarrow> path \<Rightarrow> content \<Rightarrow> error + 'm node" where
  "write_file ev t p c =
     (case open_w ev t p of
        Some e \<Rightarrow> Inl e
      | None \<Rightarrow> Inr (put t p (File c (stamp ev))))"

text \<open>
  \<^verbatim>\<open>shutil.copy2(src, dst)\<close>: when \<open>dst\<close> is a directory the file goes into
  it under the base name of \<open>src\<close>; the content is copied, then the metadata. The copy is
  taken as one step.
\<close>

definition copy_target :: "'m node \<Rightarrow> path \<Rightarrow> path \<Rightarrow> path" where
  "copy_target t src dst = (if isdir t dst then dst @ [basename src] else dst)"

definition copy2 :: "'m env \<Rightarrow> 'm node \<Rightarrow> path \<Rightarrow> path \<Rightarrow> error + 'm node" where
  "copy2 ev t src dst =
     (let dst' = copy_target t src dst in
      if src = dst' then Inl SameFileError
      else case stat t src of
          None \<Rightarrow> Inl FileNotFoundError
        | Some IsDir \<Rightarrow> Inl IsADirectoryError
        | Some (IsFile c m) \<Rightarrow>
            (case open_w ev t dst' of
               Some e \<Rightarrow> Inl e
             | None \<Rightarrow> Inr (put t dst' (File c m))))"

text \<open>\<^verbatim>\<open>os.listdir\<close>: the names in a directory, each once.\<close>

definition listdir :: "'m node \<Rightarrow> path \<Rightarrow> error + string list" where
  "listdir t p =
     (case lookup t p of
        None \<Rightarrow> Inl FileNotFoundError
      | Some (File c m) \<Rightarrow> Inl NotADirectoryError
      | Some (Dir es) \<Rightarrow> Inr (map fst (AList.clearjunk es)))"

text \<open>
  The members \<^verbatim>\<open>shutil.make_archive\<close> writes for a directory tree: the node itself
  under its archive name, and for a directory the members of each child, top down
  (\<^verbatim>\<open>os.walk\<close>). \<open>seen\<close> holds the names already visited.
\<close>

fun walk :: "path \<Rightarrow> 'm node \<Rightarrow> (path \<times> content option) list"
  and walk_children :: "path \<Rightarrow> string list \<Rightarrow> (string \<times> 'm node) list \<Rightarrow> (path \<times> content option) list"
where
  "walk p (File c m) = [(p, Some c)]"
| "walk p (Dir es) = (p, None) # walk_children p [] es"
| "walk_children p seen [] = []"
| "walk_children p seen ((x, n) # es) =
     (if x \<in> set seen then [] else walk (p @ [x]) n) @ walk_children p (x # seen) es"

text \<open>
  \<^verbatim>\<open>shutil.make_archive(base_name, 'zip', root_dir, base_dir)\<close>: the archive
  \<^verbatim>\<open>base_name + ".zip"\<close> is opened for writing, which empties it, and gets one member
  for every directory and file of \<^verbatim>\<open>root_dir/base_dir\<close>, named relative to
  \<^verbatim>\<open>root_dir\<close>.
\<close>

definition make_archive :: "'m env \<Rightarrow> 'm node \<Rightarrow> path \<Rightarrow> path \<Rightarrow> path \<Rightarrow> 'm node outcome" where
  "make_archive ev t base_name root_dir base =
     (let zip_file = dirname base_name @ [basename base_name @ ''.zip'']
      in case write_file ev t zip_file (Zip []) of
           Inl e \<Rightarrow> Raised e t
         | Inr t1 \<Rightarrow>
             (case lookup t1 (root_dir @ base) of
                None \<Rightarrow> Raised FileNotFoundError t1
              | Some n \<Rightarrow> Done (put t1 zip_file (File (Zip (walk base n)) (stamp ev)))))"

text \<open>
  Unpacking an archive into a directory (\<^verbatim>\<open>ZipFile.extractall\<close>): for each member
  in turn the missing directories of its name are made and, for a file member, the file is
  written.
\<close>

fun extract_member :: "'m env \<Rightarrow> path \<Rightarrow> 'm node outcome \<Rightarrow> path \<times> content option \<Rightarrow> 'm node outcome" where
  "extract_member ev target (Raised e t) member = Raised e t"
| "extract_member ev target (Done t) (name, None) = makedirs ev t (target @ name)"
| "extract_member ev target (Done t) (name, Some c) =
     (case makedirs ev t (target @ dirname name) of
        Raised e t1 \<Rightarrow> Raised e t1
      | Done t1 \<Rightarrow>
          (case write_file ev t1 (target @ name) c of
             Inl e \<Rightarrow> Raised e t1
           | Inr t2 \<Rightarrow> Done t2))"

definition extractall :: "'m env \<Rightarrow> 'm node \<Rightarrow> (path \<times> content option) list \<Rightarrow> path \<Rightarrow> 'm node outcome" where
  "extractall ev t members target = foldl (extract_member ev target) (Done t) members"

subsection \<open>The script\<close>

text \<open>
  The console: one constructor for each \<^verbatim>\<open>print\<close> of the script, with the value
  it interpolates. The size printed in the last line is a floating-point figure of the
  compressed archive and is left out. Printing is taken to succeed.
\<close>

datatype line =
    Copied string            \<comment> \<open>\<^verbatim>\<open>Copied: {os.path.basename(src)}\<close>\<close>
  | NotFound path            \<comment> \<open>\<^verbatim>\<open>Not found: {src}\<close>\<close>
  | CopiedQR string          \<comment> \<open>\<^verbatim>\<open>Copied QR: {file}\<close>\<close>
  | CreatedReadme            \<comment> \<open>\<^verbatim>\<open>Created README.md\<close>\<close>
  | PackageCreated path      \<comment> \<open>\<^verbatim>\<open>Package created: {zip_path}\<close>\<close>
  | TotalSize                \<comment> \<open>\<^verbatim>\<open>Total size: ... KB\<close>\<close>

record 'm state =
  root :: "'m node"
  out :: "line list"

definition base_dir :: path where
  "base_dir = [''c:'', ''Users'', ''atchy'', ''Streamli'']"

definition package_name :: string where
  "package_name = ''microbit_1st_grade_lesson_package''"

definition package_dir :: path where
  "package_dir = base_dir @ [package_name]"

definition dirs :: "string list" where
  "dirs = [''guides'', ''worksheets'', ''templates'', ''qrcodes'', ''resources'']"

definition copies :: "(path \<times> path) list" where
  "copies =
    [(base_dir @ [''teacher_guide_microbit_1st_grade.md''],
      package_dir @ [''guides'', ''teacher_guide_microbit_1st_grade.md'']),
     (base_dir @ [''teacher_guide_microbit_1st_grade.pdf''],
      package_dir @ [''guides'', ''teacher_guide_microbit_1st_grade.pdf'']),
     (base_dir @ [''student_worksheet_microbit_1st_grade.md''],
      package_dir @ [''worksheets'', ''student_worksheet_microbit_1st_grade.md'']),
     (base_dir @ [''student_worksheet_microbit_1st_grade.pdf''],
      package_dir @ [''worksheets'', ''student_worksheet_microbit_1st_grade.pdf'']),
     (base_dir @ [''templates'', ''makecode_smile_template.ts''],
      package_dir @ [''templates'', ''makecode_smile_template.ts'']),
     (base_dir @ [''templates'', ''microbit_smile_template.py''],
      package_dir @ [''templates'', ''microbit_smile_template.py'']),
     (base_dir @ [''templates'', ''README_generate_hex.md''],
      package_dir @ [''resources'', ''README_generate_hex.md''])]"

definition qrcodes_dir :: path where
  "qrcodes_dir = base_dir @ [''qrcodes'']"

text \<open>
  The README literal, line by line, in UTF-8 (the encoding the script opens the file with);
  every line ends with a newline. The translation of line ends that a text file does on some
  platforms is not modelled.
\<close>

definition readme_lines :: "string list" where
  "readme_lines =
    [
     ''# '' @ [CHR 0xE5, CHR 0xB0, CHR 0x8F, CHR 0xE5, CHR 0xAD, CHR 0xA6, CHR 0xE6, CHR 0xA0,
       CHR 0xA1] @ ''1'' @ [CHR 0xE5, CHR 0xB9, CHR 0xB4, CHR 0xE7, CHR 0x94, CHR 0x9F] @ '' '' @
       [CHR 0xE3, CHR 0x83, CHR 0x97, CHR 0xE3, CHR 0x83, CHR 0xAD, CHR 0xE3, CHR 0x82, CHR 0xB0,
       CHR 0xE3, CHR 0x83, CHR 0xA9, CHR 0xE3, CHR 0x83, CHR 0x9F, CHR 0xE3, CHR 0x83, CHR 0xB3,
       CHR 0xE3, CHR 0x82, CHR 0xB0, CHR 0xE6, CHR 0x8E, CHR 0x88, CHR 0xE6, CHR 0xA5, CHR 0xAD,
       CHR 0xE3, CHR 0x83, CHR 0x91, CHR 0xE3, CHR 0x83, CHR 0x83, CHR 0xE3, CHR 0x82, CHR 0xB1,
       CHR 0xE3, CHR 0x83, CHR 0xBC, CHR 0xE3, CHR 0x82, CHR 0xB8],
     ''## '' @ [CHR 0xE3, CHR 0x82, CHR 0xBF, CHR 0xE3, CHR 0x83, CHR 0x96, CHR 0xE3, CHR 0x83,
       CHR 0xAC, CHR 0xE3, CHR 0x83, CHR 0x83, CHR 0xE3, CHR 0x83, CHR 0x88, CHR 0xEF, CHR 0xBC,
       CHR 0x8B] @ ''micro:bit'',
     [],
     ''### '' @ [CHR 0xF0, CHR 0x9F, CHR 0x93, CHR 0x82] @ '' '' @ [CHR 0xE3, CHR 0x83, CHR 0x95,
       CHR 0xE3, CHR 0x82, CHR 0xA1, CHR 0xE3, CHR 0x82, CHR 0xA4, CHR 0xE3, CHR 0x83, CHR 0xAB,
       CHR 0xE6, CHR 0xA7, CHR 0x8B, CHR 0xE6, CHR 0x88, CHR 0x90],
     [],
     ''- **guides/** '' @ [CHR 0xE2, CHR 0x80, CHR 0x94] @ '' '' @ [CHR 0xE6, CHR 0x95, CHR 0x99,
       CHR 0xE5, CHR 0xB8, CHR 0xAB, CHR 0xE5, CHR 0x90, CHR 0x91, CHR 0xE3, CHR 0x81, CHR 0x91,
       CHR 0xE5, CHR 0xAE, CHR 0x8C, CHR 0xE5, CHR 0x85, CHR 0xA8, CHR 0xE6, CHR 0x8C, CHR 0x87,
       CHR 0xE5, CHR 0xB0, CHR 0x8E, CHR 0xE6, CHR 0xA1, CHR 0x88, CHR 0xEF, CHR 0xBC, CHR 0x88] @
       ''Markdown/PDF'' @ [CHR 0xEF, CHR 0xBC, CHR 0x89],
     ''- **worksheets/** '' @ [CHR 0xE2, CHR 0x80, CHR 0x94] @ '' '' @ [CHR 0xE5, CHR 0x85,
       CHR 0x90, CHR 0xE7, CHR 0xAB, CHR 0xA5, CHR 0xE7, CHR 0x94, CHR 0xA8, CHR 0xE3, CHR 0x83,
       CHR 0xAF, CHR 0xE3, CHR 0x83, CHR 0xBC, CHR 0xE3, CHR 0x82, CHR 0xAF, CHR 0xE3, CHR 0x82,
       CHR 0xB7, CHR 0xE3, CHR 0x83, CHR 0xBC, CHR 0xE3, CHR 0x83, CHR 0x88, CHR 0xEF, CHR 0xBC,
       CHR 0x88] @ ''Markdown/PDF'' @ [CHR 0xEF, CHR 0xBC, CHR 0x89],
     ''- **templates/** '' @ [CHR 0xE2, CHR 0x80, CHR 0x94] @ '' MakeCode/MicroPython '' @
       [CHR 0xE3, CHR 0x83, CHR 0x86, CHR 0xE3, CHR 0x83, CHR 0xB3, CHR 0xE3, CHR 0x83, CHR 0x97,
       CHR 0xE3, CHR 0x83, CHR 0xAC, CHR 0xE3, CHR 0x83, CHR 0xBC, CHR 0xE3, CHR 0x83, CHR 0x88],
     ''- **qrcodes/** '' @ [CHR 0xE2, CHR 0x80, CHR 0x94] @ '' '' @ [CHR 0xE3, CHR 0x83,
       CHR 0xAA, CHR 0xE3, CHR 0x82, CHR 0xBD, CHR 0xE3, CHR 0x83, CHR 0xBC, CHR 0xE3, CHR 0x82,
       CHR 0xB9, CHR 0xE3, CHR 0x81, CHR 0xB8, CHR 0xE3, CHR 0x81, CHR 0xAE] @ ''QR'' @ [CHR 0xE3,
       CHR 0x82, CHR 0xB3, CHR 0xE3, CHR 0x83, CHR 0xBC, CHR 0xE3, CHR 0x83, CHR 0x89, CHR 0xEF,
       CHR 0xBC, CHR 0x88, CHR 0xE5, CHR 0x8D, CHR 0xB0, CHR 0xE5, CHR 0x88, CHR 0xB7, CHR 0xE7,
       CHR 0x94, CHR 0xA8, CHR 0xEF, CHR 0xBC, CHR 0x89],
     ''- **resources/** '' @ [CHR 0xE2, CHR 0x80, CHR 0x94] @ '' .hex'' @ [CHR 0xE7, CHR 0x94,
       CHR 0x9F, CHR 0xE6, CHR 0x88, CHR 0x90, CHR 0xE6, CHR 0x96, CHR 0xB9, CHR 0xE6, CHR 0xB3,
       CHR 0x95, CHR 0xE3, CHR 0x82, CHR 0xAC, CHR 0xE3, CHR 0x82, CHR 0xA4, CHR 0xE3, CHR 0x83,
       CHR 0x89],
     [],
     ''### '' @ [CHR 0xF0, CHR 0x9F, CHR 0x9A, CHR 0x80] @ '' '' @ [CHR 0xE4, CHR 0xBD, CHR 0xBF,
       CHR 0xE3, CHR 0x81, CHR 0x84, CHR 0xE6, CHR 0x96, CHR 0xB9],
     [],
     ''1. **'' @ [CHR 0xE6, CHR 0x95, CHR 0x99, CHR 0xE5, CHR 0xB8, CHR 0xAB, CHR 0xE3, CHR 0x81,
       CHR 0xAE, CHR 0xE6, CHR 0xBA, CHR 0x96, CHR 0xE5, CHR 0x82, CHR 0x99] @ ''**'',
     ''   - `guides/teacher_guide_microbit_1st_grade.pdf` '' @ [CHR 0xE3, CHR 0x82, CHR 0x92,
       CHR 0xE5, CHR 0x8D, CHR 0xB0, CHR 0xE5, CHR 0x88, CHR 0xB7, CHR 0xE3, CHR 0x83, CHR 0xBB,
       CHR 0xE7, CHR 0xA2, CHR 0xBA, CHR 0xE8, CHR 0xAA, CHR 0x8D],
     ''   - `templates/makecode_smile_template.ts` '' @ [CHR 0xE3, CHR 0x81, CHR 0xA7] @
       ''MakeCode'' @ [CHR 0xE4, CHR 0xB8, CHR 0x8A, CHR 0xE3, CHR 0x81, CHR 0xAB] @ ''.hex'' @
       [CHR 0xE3, CHR 0x82, CHR 0x92, CHR 0xE4, CHR 0xBD, CHR 0x9C, CHR 0xE6, CHR 0x88, CHR 0x90],
     ''   - `qrcodes/` '' @ [CHR 0xE3, CHR 0x81, CHR 0xAE] @ ''QR'' @ [CHR 0xE7, CHR 0x94,
       CHR 0xBB, CHR 0xE5, CHR 0x83, CHR 0x8F, CHR 0xE3, CHR 0x82, CHR 0x92, CHR 0xE5, CHR 0x8D,
       CHR 0xB0, CHR 0xE5, CHR 0x88, CHR 0xB7],
     [],
     ''2. **'' @ [CHR 0xE6, CHR 0x8E, CHR 0x88, CHR 0xE6, CHR 0xA5, CHR 0xAD, CHR 0xE5, CHR 0xAE,
       CHR 0x9F, CHR 0xE6, CHR 0x96, CHR 0xBD] @ ''**'',
     ''   - `worksheets/student_worksheet_microbit_1st_grade.pdf` '' @ [CHR 0xE3, CHR 0x82,
       CHR 0x92, CHR 0xE5, CHR 0x85, CHR 0x90, CHR 0xE7, CHR 0xAB, CHR 0xA5, CHR 0xE3, CHR 0x81,
       CHR 0xAB, CHR 0xE9, CHR 0x85, CHR 0x8D, CHR 0xE5, CHR 0xB8, CHR 0x83],
     ''   - MakeCode'' @ [CHR 0xE3, CHR 0x81, CHR 0xAE] @ ''QR'' @ [CHR 0xE3, CHR 0x82, CHR 0xB3,
       CHR 0xE3, CHR 0x83, CHR 0xBC, CHR 0xE3, CHR 0x83, CHR 0x89, CHR 0xEF, CHR 0xBC, CHR 0x88,
       CHR 0xE3, CHR 0x82, CHR 0xBF, CHR 0xE3, CHR 0x83, CHR 0x96, CHR 0xE3, CHR 0x83, CHR 0xAC,
       CHR 0xE3, CHR 0x83, CHR 0x83, CHR 0xE3, CHR 0x83, CHR 0x88, CHR 0xE7, CHR 0x94, CHR 0xA8,
       CHR 0xEF, CHR 0xBC, CHR 0x89, CHR 0xE3, CHR 0x82, CHR 0x92, CHR 0xE6, CHR 0x8F, CHR 0x90,
       CHR 0xE7, CHR 0xA4, CHR 0xBA],
     [],
     ''3. **micro:bit'' @ [CHR 0xE8, CHR 0xBB, CHR 0xA2, CHR 0xE9, CHR 0x80, CHR 0x81] @ ''**'',
     ''   - `resources/README_generate_hex.md` '' @ [CHR 0xE3, CHR 0x81, CHR 0xAE, CHR 0xE6,
       CHR 0x89, CHR 0x8B, CHR 0xE9, CHR 0xA0, CHR 0x86, CHR 0xE3, CHR 0x81, CHR 0xAB, CHR 0xE5,
       CHR 0xBE, CHR 0x93, CHR 0xE3, CHR 0x81, CHR 0x86],
     [],
     ''### '' @ [CHR 0xF0, CHR 0x9F, CHR 0x93, CHR 0x9A] @ '' '' @ [CHR 0xE5, CHR 0x8F, CHR 0x82,
       CHR 0xE8, CHR 0x80, CHR 0x83, CHR 0xE3, CHR 0x83, CHR 0xAA, CHR 0xE3, CHR 0x83, CHR 0xB3,
       CHR 0xE3, CHR 0x82, CHR 0xAF, CHR 0xEF, CHR 0xBC, CHR 0x88] @ ''QR'' @ [CHR 0xE3, CHR 0x82,
       CHR 0xB3, CHR 0xE3, CHR 0x83, CHR 0xBC, CHR 0xE3, CHR 0x83, CHR 0x89, CHR 0xEF, CHR 0xBC,
       CHR 0x89],
     ''- MakeCode: `qrcodes/qr_makecode_new_project.png`'',
     ''- micro:bit'' @ [CHR 0xE5, CHR 0x85, CHR 0xAC, CHR 0xE5, CHR 0xBC, CHR 0x8F] @
       '': `qrcodes/qr_microbit_official.png`'',
     [],
     ''---'',
     [],
     [CHR 0xE4, CHR 0xBD, CHR 0x9C, CHR 0xE6, CHR 0x88, CHR 0x90, CHR 0xE6, CHR 0x97, CHR 0xA5,
       CHR 0xEF, CHR 0xBC, CHR 0x9A] @ ''2026-01-30''
    ]"

definition readme_content :: string where
  "readme_content = concat (map (\<lambda>l. l @ [CHR 0x0A]) readme_lines)"

definition zip_path :: path where
  "zip_path = base_dir @ [package_name @ ''.zip'']"

text \<open>Lines 13 to 18: the package directory, then the five subdirectories.\<close>

fun make_subdirs :: "'m env \<Rightarrow> string list \<Rightarrow> 'm state \<Rightarrow> 'm state outcome" where
  "make_subdirs ev [] s = Done s"
| "make_subdirs ev (d # ds) s =
     (case makedirs ev (root s) (package_dir @ [d]) of
        Raised e t \<Rightarrow> Raised e (s\<lparr>root := t\<rparr>)
      | Done t \<Rightarrow> make_subdirs ev ds (s\<lparr>root := t\<rparr>))"

definition make_dirs :: "'m env \<Rightarrow> 'm state \<Rightarrow> 'm state outcome" where
  "make_dirs ev s =
     (case makedirs ev (root s) package_dir of
        Raised e t \<Rightarrow> Raised e (s\<lparr>root := t\<rparr>)
      | Done t \<Rightarrow> make_subdirs ev dirs (s\<lparr>root := t\<rparr>))"

text \<open>Lines 38 to 43: the loop over the manifest.\<close>

fun copy_files :: "'m env \<Rightarrow> (path \<times> path) list \<Rightarrow> 'm state \<Rightarrow> 'm state outcome" where
  "copy_files ev [] s = Done s"
| "copy_files ev ((src, dst) # rest) s =
     (if exists (root s) src
      then (case copy2 ev (root s) src dst of
              Inl e \<Rightarrow> Raised e s
            | Inr t \<Rightarrow> copy_files ev rest (s\<lparr>root := t, out := out s @ [Copied (basename src)]\<rparr>))
      else copy_files ev rest (s\<lparr>out := out s @ [NotFound src]\<rparr>))"

text \<open>Lines 46 to 54: the QR images.\<close>

fun copy_qr_files :: "'m env \<Rightarrow> string list \<Rightarrow> 'm state \<Rightarrow> 'm state outcome" where
  "copy_qr_files ev [] s = Done s"
| "copy_qr_files ev (file # rest) s =
     (if endswith file ''.png''
      then (case copy2 ev (root s) (qrcodes_dir @ [file]) (package_dir @ [''qrcodes'', file]) of
              Inl e \<Rightarrow> Raised e s
            | Inr t \<Rightarrow> copy_qr_files ev rest (s\<lparr>root := t, out := out s @ [CopiedQR file]\<rparr>))
      else copy_qr_files ev rest s)"

definition copy_qrcodes :: "'m env \<Rightarrow> 'm state \<Rightarrow> 'm state outcome" where
  "copy_qrcodes ev s =
     (if exists (root s) qrcodes_dir
      then (case listdir (root s) qrcodes_dir of
              Inl e \<Rightarrow> Raised e s
            | Inr files \<Rightarrow> copy_qr_files ev files s)
      else Done s)"

text \<open>Lines 57 to 92: the README, written in one step.\<close>

definition write_readme :: "'m env \<Rightarrow> 'm state \<Rightarrow> 'm state outcome" where
  "write_readme ev s =
     (case write_file ev (root s) (package_dir @ [''README.md'']) (Bytes readme_content) of
        Inl e \<Rightarrow> Raised e s
      | Inr t \<Rightarrow> Done (s\<lparr>root := t, out := out s @ [CreatedReadme]\<rparr>))"

text \<open>Lines 95 to 103: the archive and the two closing lines.\<close>

definition make_zip :: "'m env \<Rightarrow> 'm state \<Rightarrow> 'm state outcome" where
  "make_zip ev s =
     (case make_archive ev (root s) (splitext_root zip_path) base_dir [package_name] of
        Raised e t \<Rightarrow> Raised e (s\<lparr>root := t\<rparr>)
      | Done t \<Rightarrow> Done (s\<lparr>root := t, out := out s @ [PackageCreated zip_path, TotalSize]\<rparr>))"

definition create_package :: "'m env \<Rightarrow> 'm node \<Rightarrow> 'm state outcome" where
  "create_package ev t =
     and_then (make_dirs ev \<lparr>root = t, out = []\<rparr>) (\<lambda>s1.
     and_then (copy_files ev copies s1) (\<lambda>s2.
     and_then (copy_qrcodes ev s2) (\<lambda>s3.
     and_then (write_readme ev s3) (\<lambda>s4.
     make_zip ev s4))))"

subsection \<open>Notions used in the statements\<close>

text \<open>The state an outcome leaves, and the exception it raised, if any.\<close>

fun final :: "'a outcome \<Rightarrow> 'a" where
  "final (Done s) = s"
| "final (Raised e s) = s"

fun raised :: "'a outcome \<Rightarrow> error option" where
  "raised (Done s) = None"
| "raised (Raised e s) = Some e"

text \<open>
  What a comparison of two trees by names and bytes sees at a path: nothing, a directory
  (\<open>Some None\<close>) or a file with its data; the metadata is left out.
\<close>

fun data_of :: "'m entry \<Rightarrow> content option" where
  "data_of (IsFile c m) = Some c"
| "data_of IsDir = None"

definition view :: "'m node \<Rightarrow> path \<Rightarrow> content option option" where
  "view t p = map_option data_of (stat t p)"

text \<open>The members of the archive stored at a path, if an archive is stored there.\<close>

definition members :: "'m node \<Rightarrow> path \<Rightarrow> (path \<times> content option) list option" where
  "members t p = (case stat t p of Some (IsFile (Zip ms) m) \<Rightarrow> Some ms | _ \<Rightarrow> None)"

text \<open>
  A list of copies whose destinations are pairwise different and not nested in one another,
  and whose sources lie under no destination: then no copy of the list disturbs another.
\<close>

definition separate :: "(path \<times> path) list \<Rightarrow> bool" where
  "separate cs =
     (distinct (map snd cs)
      \<and> (\<forall>b\<in>set (map snd cs). \<forall>b'\<in>set (map snd cs). b \<noteq> b' \<longrightarrow> \<not> prefix b b')
      \<and> (\<forall>a\<in>set (map fst cs). \<forall>b\<in>set (map snd cs). \<not> prefix b a))"

subsection \<open>Example file systems\<close>

text \<open>
  An environment that refuses nothing, the same at a later time, and one that refuses every
  write; the scenario of the
  specification (the teacher guide in Markdown but not in PDF, and a QR directory with one
  image and one other file); the same base directory when the destination of the teacher guide
  already exists as a directory; an environment that refuses to write the archive; the file
  system a run leaves of the scenario of the specification, and an environment in which the
  copy of the teacher guide cannot be written again (as when the copy has taken over a
  read-only mode from its source); and a QR directory that holds, beside one
  \<^verbatim>\<open>.png\<close> file, a JPEG image, an image whose extension is in upper case,
  and an image in a subdirectory.
\<close>

definition plain_env :: "nat env" where
  "plain_env = \<lparr>denied = (\<lambda>p. False), stamp = 0\<rparr>"

definition locked_env :: "nat env" where
  "locked_env = \<lparr>denied = (\<lambda>p. True), stamp = 0\<rparr>"

definition late_env :: "nat env" where
  "late_env = \<lparr>denied = (\<lambda>p. False), stamp = 5\<rparr>"


fun nest :: "path \<Rightarrow> 'm node \<Rightarrow> 'm node" where
  "nest [] n = n"
| "nest (x # xs) n = Dir [(x, nest xs n)]"

definition empty_tree :: "nat node" where
  "empty_tree = Dir []"

definition example_tree :: "nat node" where
  "example_tree = nest base_dir
     (Dir [(''teacher_guide_microbit_1st_grade.md'', File (Bytes ''guide'') 1),
           (''qrcodes'', Dir [(''qr_a.png'', File (Bytes ''png'') 2),
                              (''notes.txt'', File (Bytes ''n'') 3)])])"

definition blocked_tree :: "nat node" where
  "blocked_tree = nest base_dir
     (Dir [(''teacher_guide_microbit_1st_grade.md'', File (Bytes ''guide'') 1),
           (package_name,
            Dir [(''guides'', Dir [(''teacher_guide_microbit_1st_grade.md'', Dir [])])])])"

definition packaged_tree :: "nat node" where
  "packaged_tree = nest base_dir
     (Dir [(''teacher_guide_microbit_1st_grade.md'', File (Bytes ''guide'') 1),
           (''qrcodes'', Dir [(''qr_a.png'', File (Bytes ''png'') 2),
                              (''notes.txt'', File (Bytes ''n'') 3)]),
           (package_name,
            Dir [(''guides'', Dir [(''teacher_guide_microbit_1st_grade.md'', File (Bytes ''guide'') 1)]),
                 (''worksheets'', Dir []),
                 (''templates'', Dir []),
                 (''qrcodes'', Dir [(''qr_a.png'', File (Bytes ''png'') 2)]),
                 (''resources'', Dir []),
                 (''README.md'', File (Bytes readme_content) 0)]),
           (package_name @ ''.zip'',
            File (Zip [([package_name], None),
                       ([package_name, ''guides''], None),
                       ([package_name, ''guides'', ''teacher_guide_microbit_1st_grade.md''],
                        Some (Bytes ''guide'')),
                       ([package_name, ''worksheets''], None),
                       ([package_name, ''templates''], None),
                       ([package_name, ''qrcodes''], None),
                       ([package_name, ''qrcodes'', ''qr_a.png''], Some (Bytes ''png'')),
                       ([package_name, ''resources''], None),
                       ([package_name, ''README.md''], Some (Bytes readme_content))]) 0)])"

definition copied_mode_env :: "nat env" where
  "copied_mode_env = \<lparr>denied = (\<lambda>p. p = package_dir @ [''guides'', ''teacher_guide_microbit_1st_grade.md'']),
                      stamp = 5\<rparr>"


section \<open>Properties of the file system operations\<close>

lemma finished: "raised r = None \<Longrightarrow> r = Done (final r)"
  by (cases r) auto


lemma stat_Nil [simp]: "stat t [] = Some (entry_of t)"
  by (simp add: stat_def)

lemma stat_File_Cons [simp]: "stat (File c m) (x # xs) = None"
  by (simp add: stat_def)

lemma stat_Dir_Cons:
  "stat (Dir es) (x # xs) = (case map_of es x of None \<Rightarrow> None | Some n \<Rightarrow> stat n xs)"
  by (simp add: stat_def split: option.splits)

lemma lookup_append:
  "lookup t (p @ q) = (case lookup t p of None \<Rightarrow> None | Some n \<Rightarrow> lookup n q)"
proof (induction p arbitrary: t)
  case Nil
  show ?case by simp
next
  case (Cons x xs)
  then show ?case by (cases t) (auto split: option.splits)
qed

lemma stat_append:
  "stat t (p @ q) = (case lookup t p of None \<Rightarrow> None | Some n \<Rightarrow> stat n q)"
  by (simp add: stat_def lookup_append split: option.splits)

lemma stat_above_dir:
  assumes "stat t (p @ x # r) = Some e"
  shows "stat t p = Some IsDir"
proof -
  from assms obtain n where n: "lookup t p = Some n" and s: "stat n (x # r) = Some e"
    by (auto simp: stat_append split: option.splits)
  from s have "entry_of n = IsDir" by (cases n) auto
  with n show ?thesis by (simp add: stat_def)
qed

lemma stat_below_absent: "stat t p \<noteq> Some IsDir \<Longrightarrow> stat t (p @ x # r) = None"
  using stat_above_dir [of t p x r] by (cases "stat t (p @ x # r)") auto

lemma stat_parent_dir:
  assumes "stat t p = Some e" and "p \<noteq> []"
  shows "stat t (butlast p) = Some IsDir"
proof -
  from assms(2) have "p = butlast p @ last p # []" by simp
  with assms(1) stat_above_dir [of t "butlast p" "last p" "[]" e] show ?thesis by simp
qed

lemma map_of_snoc:
  "map_of (es @ [(x, n)]) y =
     (case map_of es y of Some v \<Rightarrow> Some v | None \<Rightarrow> if y = x then Some n else None)"
  by (simp add: map_add_def split: option.splits)

lemma stat_put:
  "p \<noteq> [] \<Longrightarrow> stat t (butlast p) = Some IsDir \<Longrightarrow>
   stat (put t p new) q = (if prefix p q then stat new (drop (length p) q) else stat t q)"
proof (induction p arbitrary: t q)
  case Nil
  then show ?case by simp
next
  case (Cons x xs)
  show ?case
  proof (cases t)
    case (File c m)
    with Cons.prems show ?thesis by (cases xs) auto
  next
    case (Dir es)
    show ?thesis
    proof (cases xs)
      case Nil
      then show ?thesis using Dir
        by (cases q) (auto simp: stat_Dir_Cons update_conv' map_of_snoc split: option.splits)
    next
      case (Cons y ys)
      then show ?thesis using Dir Cons.prems Cons.IH
        by (cases q) (auto simp: stat_Dir_Cons update_conv' split: option.splits)
    qed
  qed
qed

lemma stat_put_dir:
  assumes "p \<noteq> []" "stat t (butlast p) = Some IsDir" "stat t p = None"
  shows "stat (put t p (Dir [])) = (stat t)(p \<mapsto> IsDir)"
proof
  fix q
  show "stat (put t p (Dir [])) q = ((stat t)(p \<mapsto> IsDir)) q"
  proof (cases "prefix p q")
    case False
    then show ?thesis using assms by (auto simp: stat_put)
  next
    case True
    then obtain r where q: "q = p @ r" by (auto simp: prefix_def)
    show ?thesis
    proof (cases r)
      case Nil
      then show ?thesis using assms q by (simp add: stat_put)
    next
      case (Cons x r')
      then show ?thesis using assms q stat_below_absent [of t p x r']
        by (simp add: stat_put stat_Dir_Cons)
    qed
  qed
qed

lemma stat_put_file:
  assumes "p \<noteq> []" "stat t (butlast p) = Some IsDir" "stat t p \<noteq> Some IsDir"
  shows "stat (put t p (File c m)) = (stat t)(p \<mapsto> IsFile c m)"
proof
  fix q
  show "stat (put t p (File c m)) q = ((stat t)(p \<mapsto> IsFile c m)) q"
  proof (cases "prefix p q")
    case False
    then show ?thesis using assms by (auto simp: stat_put)
  next
    case True
    then obtain r where q: "q = p @ r" by (auto simp: prefix_def)
    show ?thesis
    proof (cases r)
      case Nil
      then show ?thesis using assms q by (simp add: stat_put)
    next
      case (Cons x r')
      then show ?thesis using assms q stat_below_absent [of t p x r']
        by (simp add: stat_put)
    qed
  qed
qed

lemma mkdir_Inr:
  assumes "mkdir ev t p = Inr t'"
  shows "stat t p = None \<and> stat t' = (stat t)(p \<mapsto> IsDir) \<and> \<not> denied ev p"
  using assms
  by (auto simp: mkdir_def exists_def dirname_def stat_put_dir split: if_splits option.splits entry.splits)

lemma write_file_Inr:
  assumes "write_file ev t p c = Inr t'"
  shows "stat t' = (stat t)(p \<mapsto> IsFile c (stamp ev)) \<and> stat t p \<noteq> Some IsDir \<and> \<not> denied ev p
         \<and> stat t (dirname p) = Some IsDir \<and> p \<noteq> []"
  using assms
  by (auto simp: write_file_def open_w_def isdir_def dirname_def stat_put_file
      split: if_splits option.splits entry.splits)

lemma copy2_Inr:
  assumes "copy2 ev t src dst = Inr t'"
  shows "\<exists>c m. stat t src = Some (IsFile c m)
           \<and> stat t' = (stat t)(copy_target t src dst \<mapsto> IsFile c m)
           \<and> stat t (copy_target t src dst) \<noteq> Some IsDir
           \<and> \<not> denied ev (copy_target t src dst)
           \<and> src \<noteq> copy_target t src dst"
  using assms
  by (auto simp: copy2_def Let_def open_w_def isdir_def dirname_def stat_put_file
      split: if_splits option.splits entry.splits)

lemma makedirs_idem: "isdir t p \<Longrightarrow> makedirs ev t p = Done t"
  apply (subst makedirs.simps)
  apply (auto simp: isdir_def exists_def mkdir_def dirname_def stat_parent_dir split: option.splits entry.splits sum.splits)
  done

lemma makedirs_Done_isdir: "makedirs ev t p = Done t' \<Longrightarrow> isdir t' p"
  apply (subst (asm) makedirs.simps)
  apply (auto simp: isdir_def dest!: mkdir_Inr split: if_splits outcome.splits sum.splits)
  done

lemma makedirs_final:
  "\<exists>t1. (t1 = t \<or> (p \<noteq> [] \<and> dirname p \<noteq> [] \<and> \<not> exists t (dirname p)
                    \<and> t1 = final (makedirs ev t (dirname p))))
        \<and> (final (makedirs ev t p) = t1 \<or> mkdir ev t1 p = Inr (final (makedirs ev t p)))"
  using makedirs.simps [of ev t p]
  by (auto split: if_splits outcome.splits sum.splits)

lemma makedirs_grows:
  "stat (final (makedirs ev t p)) q = stat t q
   \<or> (stat t q = None \<and> stat (final (makedirs ev t p)) q = Some IsDir \<and> prefix q p)"
proof (induction ev t p arbitrary: q rule: makedirs.induct)
  case (1 ev t p)
  obtain t1 where t1: "t1 = t \<or> (p \<noteq> [] \<and> dirname p \<noteq> [] \<and> \<not> exists t (dirname p)
                    \<and> t1 = final (makedirs ev t (dirname p)))"
    and fin: "final (makedirs ev t p) = t1 \<or> mkdir ev t1 p = Inr (final (makedirs ev t p))"
    using makedirs_final [of t p ev] by blast
  have g1: "stat t1 r = stat t r \<or> (stat t r = None \<and> stat t1 r = Some IsDir \<and> prefix r p)" for r
  proof -
    from t1 show ?thesis
    proof
      assume "t1 = t" then show ?thesis by simp
    next
      assume a: "p \<noteq> [] \<and> dirname p \<noteq> [] \<and> \<not> exists t (dirname p)
                    \<and> t1 = final (makedirs ev t (dirname p))"
      then have "prefix (dirname p) p" by (simp add: dirname_def prefixeq_butlast)
      with a "1.IH" [of r] show ?thesis by auto
    qed
  qed
  from fin show ?case
  proof
    assume "final (makedirs ev t p) = t1"
    with g1 [of q] show ?thesis by simp
  next
    assume "mkdir ev t1 p = Inr (final (makedirs ev t p))"
    from mkdir_Inr [OF this] have n: "stat t1 p = None"
      and u: "stat (final (makedirs ev t p)) = (stat t1)(p \<mapsto> IsDir)" by auto
    show ?thesis
    proof (cases "q = p")
      case True
      with n u g1 [of p] show ?thesis by auto
    next
      case False
      with u g1 [of q] show ?thesis by auto
    qed
  qed
qed

lemma lookup_put_apart:
  "\<not> prefix p q \<Longrightarrow> \<not> prefix q p \<Longrightarrow> lookup (put t p new) q = lookup t q"
proof (induction p arbitrary: t q)
  case Nil
  then show ?case by simp
next
  case (Cons x xs)
  from Cons.prems obtain y ys where q: "q = y # ys" by (cases q) auto
  show ?case
  proof (cases t)
    case (File c m)
    then show ?thesis by simp
  next
    case (Dir es)
    show ?thesis
    proof (cases "y = x")
      case True
      with Cons.prems q have "\<not> prefix xs ys" "\<not> prefix ys xs" by auto
      with Cons.IH Dir q True show ?thesis
        by (auto simp: update_conv' split: option.splits)
    next
      case False
      with Dir q show ?thesis
        by (auto simp: update_conv' map_of_snoc split: option.splits)
    qed
  qed
qed

subsection \<open>Directory creation\<close>

lemma makedirs_keeps: "stat t q = Some e \<Longrightarrow> stat (final (makedirs ev t p)) q = Some e"
  using makedirs_grows [of ev t p q] by auto

lemma makedirs_other: "\<not> prefix q p \<Longrightarrow> stat (final (makedirs ev t p)) q = stat t q"
  using makedirs_grows [of ev t p q] by auto

lemma make_subdirs_out [simp]: "out (final (make_subdirs ev ds s)) = out s"
  by (induction ds arbitrary: s) (auto split: outcome.splits)

lemma make_subdirs_grows:
  "stat (root (final (make_subdirs ev ds s))) q = stat (root s) q
   \<or> (stat (root s) q = None \<and> stat (root (final (make_subdirs ev ds s))) q = Some IsDir
      \<and> (\<exists>d\<in>set ds. prefix q (package_dir @ [d])))"
proof (induction ds arbitrary: s)
  case Nil
  show ?case by simp
next
  case (Cons d ds)
  show ?case
  proof (cases "makedirs ev (root s) (package_dir @ [d])")
    case (Raised e t)
    with makedirs_grows [of ev "root s" "package_dir @ [d]" q] show ?thesis by auto
  next
    case (Done t)
    with makedirs_grows [of ev "root s" "package_dir @ [d]" q] Cons.IH [of "s\<lparr>root := t\<rparr>"]
    show ?thesis by auto
  qed
qed

lemma make_subdirs_Done:
  "make_subdirs ev ds s = Done s' \<Longrightarrow> d \<in> set ds \<Longrightarrow> isdir (root s') (package_dir @ [d])"
proof (induction ds arbitrary: s)
  case Nil
  then show ?case by simp
next
  case (Cons x ds)
  from Cons.prems(1) obtain t where t: "makedirs ev (root s) (package_dir @ [x]) = Done t"
    and rest: "make_subdirs ev ds (s\<lparr>root := t\<rparr>) = Done s'"
    by (auto split: outcome.splits)
  show ?case
  proof (cases "d \<in> set ds")
    case True
    with Cons.IH rest show ?thesis by blast
  next
    case False
    with Cons.prems(2) have "d = x" by simp
    with makedirs_Done_isdir [OF t] have "stat t (package_dir @ [d]) = Some IsDir"
      by (simp add: isdir_def)
    with make_subdirs_grows [of ev ds "s\<lparr>root := t\<rparr>" "package_dir @ [d]"] rest
    show ?thesis by (auto simp: isdir_def)
  qed
qed

lemma make_dirs_out [simp]: "out (final (make_dirs ev s)) = out s"
  using make_subdirs_out [of ev dirs]
  by (auto simp: make_dirs_def split: outcome.splits)

lemma make_dirs_grows:
  "stat (root (final (make_dirs ev s))) q = stat (root s) q
   \<or> (stat (root s) q = None \<and> stat (root (final (make_dirs ev s))) q = Some IsDir
      \<and> (\<exists>d\<in>set dirs. prefix q (package_dir @ [d])))"
proof (cases "makedirs ev (root s) package_dir")
  case (Raised e t)
  with makedirs_grows [of ev "root s" package_dir q] show ?thesis
    by (auto simp: make_dirs_def dirs_def)
next
  case (Done t)
  with makedirs_grows [of ev "root s" package_dir q] make_subdirs_grows [of ev dirs "s\<lparr>root := t\<rparr>" q]
  show ?thesis
    by (auto simp: make_dirs_def dirs_def)
qed

lemma make_dirs_Done:
  assumes "make_dirs ev s = Done s'"
  shows "isdir (root s') package_dir" and "d \<in> set dirs \<Longrightarrow> isdir (root s') (package_dir @ [d])"
proof -
  from assms obtain t where t: "makedirs ev (root s) package_dir = Done t"
    and rest: "make_subdirs ev dirs (s\<lparr>root := t\<rparr>) = Done s'"
    by (auto simp: make_dirs_def split: outcome.splits)
  from makedirs_Done_isdir [OF t] make_subdirs_grows [of ev dirs "s\<lparr>root := t\<rparr>" package_dir] rest
  show "isdir (root s') package_dir" by (auto simp: isdir_def)
  show "d \<in> set dirs \<Longrightarrow> isdir (root s') (package_dir @ [d])"
    using make_subdirs_Done [OF rest] by simp
qed

lemma make_subdirs_idem:
  "\<forall>d\<in>set ds. isdir (root s) (package_dir @ [d]) \<Longrightarrow> make_subdirs ev ds s = Done s"
  by (induction ds) (auto simp: makedirs_idem)

lemma make_dirs_idem:
  "isdir (root s) package_dir \<Longrightarrow> \<forall>d\<in>set dirs. isdir (root s) (package_dir @ [d]) \<Longrightarrow>
   make_dirs ev s = Done s"
  by (simp add: make_dirs_def makedirs_idem make_subdirs_idem)

subsection \<open>Copies\<close>

lemma copy_target_prefix: "prefix dst (copy_target t src dst)"
  by (simp add: copy_target_def)

lemma copy2_other: "copy2 ev t src dst = Inr t' \<Longrightarrow> \<not> prefix dst q \<Longrightarrow> stat t' q = stat t q"
  using copy_target_prefix [of dst t src] by (auto dest!: copy2_Inr)

lemma copy2_isdir: "copy2 ev t src dst = Inr t' \<Longrightarrow> isdir t' q = isdir t q"
  by (auto dest!: copy2_Inr simp: isdir_def split: if_splits)

lemma copy2_copy_target:
  "copy2 ev t src dst = Inr t' \<Longrightarrow> copy_target t' a b = copy_target t a b"
  by (simp add: copy_target_def copy2_isdir)

lemma copy_files_frame:
  "\<forall>d\<in>set (map snd cs). \<not> prefix d q \<Longrightarrow> stat (root (final (copy_files ev cs s))) q = stat (root s) q"
proof (induction cs arbitrary: s)
  case Nil
  show ?case by simp
next
  case (Cons a cs)
  obtain src dst where a: "a = (src, dst)" by (cases a)
  with Cons.prems have nd: "\<not> prefix dst q" and rest: "\<forall>d\<in>set (map snd cs). \<not> prefix d q"
    by auto
  show ?case
  proof (cases "copy2 ev (root s) src dst")
    case (Inl e)
    with a Cons.IH [OF rest] show ?thesis by simp
  next
    case (Inr t)
    with a Cons.IH [OF rest] copy2_other [OF Inr nd] show ?thesis by simp
  qed
qed

lemma copy_files_isdir: "isdir (root (final (copy_files ev cs s))) q = isdir (root s) q"
proof (induction cs arbitrary: s)
  case Nil
  show ?case by simp
next
  case (Cons a cs)
  obtain src dst where a: "a = (src, dst)" by (cases a)
  show ?case
  proof (cases "copy2 ev (root s) src dst")
    case (Inl e)
    with a Cons.IH show ?thesis by simp
  next
    case (Inr t)
    with a Cons.IH copy2_isdir [OF Inr] show ?thesis by simp
  qed
qed

lemma separate_Cons:
  assumes "separate ((a, b) # cs)"
  shows "separate cs" and "\<forall>d\<in>set (map snd cs). \<not> prefix d b \<and> \<not> prefix b d \<and> d \<noteq> b"
    and "\<forall>x\<in>set (map fst cs). \<not> prefix b x" and "\<not> prefix b a"
  using assms by (auto simp: separate_def)

lemma separate_target:
  assumes "separate ((a, b) # cs)"
  shows "\<forall>d\<in>set (map snd cs). \<not> prefix d (copy_target t a b)"
proof
  fix d assume d: "d \<in> set (map snd cs)"
  with separate_Cons(2) [OF assms] have "\<not> prefix d b" "\<not> prefix b d" by auto
  then show "\<not> prefix d (copy_target t a b)"
    by (auto simp: copy_target_def)
qed

lemma copy_files_copied:
  assumes "copy_files ev cs s = Done s'" and "separate cs"
    and "(src, dst) \<in> set cs" and "exists (root s) src"
  shows "\<exists>c m. stat (root s) src = Some (IsFile c m)
           \<and> stat (root s') (copy_target (root s) src dst) = Some (IsFile c m)
           \<and> \<not> denied ev (copy_target (root s) src dst)
           \<and> src \<noteq> copy_target (root s) src dst"
  using assms
proof (induction cs arbitrary: s)
  case Nil
  then show ?case by simp
next
  case (Cons x cs)
  obtain a b where x: "x = (a, b)" by (cases x)
  note sep = Cons.prems(2) [unfolded x]
  show ?case
  proof (cases "exists (root s) a")
    case False
    with Cons.prems(1) x have run: "copy_files ev cs (s\<lparr>out := out s @ [NotFound a]\<rparr>) = Done s'"
      by simp
    from False Cons.prems(3,4) x have "(src, dst) \<in> set cs" by auto
    from Cons.IH [OF run separate_Cons(1) [OF sep] this] Cons.prems(4) show ?thesis by simp
  next
    case True
    with Cons.prems(1) x obtain t where cp: "copy2 ev (root s) a b = Inr t"
      and run: "copy_files ev cs (s\<lparr>root := t, out := out s @ [Copied (basename a)]\<rparr>) = Done s'"
      by (auto split: sum.splits)
    show ?thesis
    proof (cases "(src, dst) = (a, b)")
      case True
      from copy2_Inr [OF cp] obtain c m where c: "stat (root s) a = Some (IsFile c m)"
        and u: "stat t = (stat (root s))(copy_target (root s) a b \<mapsto> IsFile c m)"
        and d: "\<not> denied ev (copy_target (root s) a b)" "a \<noteq> copy_target (root s) a b"
        by blast
      from copy_files_frame [OF separate_target [OF sep], of ev "s\<lparr>root := t, out := out s @ [Copied (basename a)]\<rparr>" "root s"] run u
      have "stat (root s') (copy_target (root s) a b) = Some (IsFile c m)" by simp
      with c d True show ?thesis by auto
    next
      case False
      with Cons.prems(3) x have mem: "(src, dst) \<in> set cs" by auto
      then have "src \<in> set (map fst cs)" by force
      with separate_Cons(3) [OF sep] have "\<not> prefix b src" by blast
      from copy2_other [OF cp this] Cons.prems(4)
      have ex: "exists (root (s\<lparr>root := t, out := out s @ [Copied (basename a)]\<rparr>)) src"
        by (simp add: exists_def)
      from Cons.IH [OF run separate_Cons(1) [OF sep] mem ex]
        copy2_other [OF cp \<open>\<not> prefix b src\<close>] copy2_copy_target [OF cp]
      show ?thesis by simp
    qed
  qed
qed

lemma copy_files_out:
  assumes "copy_files ev cs s = Done s'" and "separate cs"
  shows "out s' = out s @ map (\<lambda>(a, b). if exists (root s) a then Copied (basename a) else NotFound a) cs"
  using assms
proof (induction cs arbitrary: s)
  case Nil
  then show ?case by simp
next
  case (Cons x cs)
  obtain a b where x: "x = (a, b)" by (cases x)
  note sep = Cons.prems(2) [unfolded x]
  show ?case
  proof (cases "exists (root s) a")
    case False
    with Cons.prems(1) x have run: "copy_files ev cs (s\<lparr>out := out s @ [NotFound a]\<rparr>) = Done s'"
      by simp
    from Cons.IH [OF run separate_Cons(1) [OF sep]] False x show ?thesis by simp
  next
    case True
    with Cons.prems(1) x obtain t where cp: "copy2 ev (root s) a b = Inr t"
      and run: "copy_files ev cs (s\<lparr>root := t, out := out s @ [Copied (basename a)]\<rparr>) = Done s'"
      by (auto split: sum.splits)
    have "\<forall>(a', b')\<in>set cs. exists t a' = exists (root s) a'"
    proof clarify
      fix a' b' assume "(a', b') \<in> set cs"
      then have "a' \<in> set (map fst cs)" by force
      with separate_Cons(3) [OF sep] have "\<not> prefix b a'" by blast
      from copy2_other [OF cp this] show "exists t a' = exists (root s) a'"
        by (simp add: exists_def)
    qed
    then have "map (\<lambda>(a, b). if exists t a then Copied (basename a) else NotFound a) cs
             = map (\<lambda>(a, b). if exists (root s) a then Copied (basename a) else NotFound a) cs"
      by (intro map_cong) auto
    with Cons.IH [OF run separate_Cons(1) [OF sep]] True x show ?thesis by simp
  qed
qed

lemma copy_files_Raised:
  "copy_files ev cs s = Raised e s' \<Longrightarrow>
   \<exists>src dst. (src, dst) \<in> set cs \<and> exists (root s') src \<and> copy2 ev (root s') src dst = Inl e"
proof (induction cs arbitrary: s)
  case Nil
  then show ?case by simp
next
  case (Cons x cs)
  obtain a b where x: "x = (a, b)" by (cases x)
  show ?case
  proof (cases "exists (root s) a")
    case False
    with Cons.prems x Cons.IH [of "s\<lparr>out := out s @ [NotFound a]\<rparr>"] show ?thesis by auto
  next
    case True
    show ?thesis
    proof (cases "copy2 ev (root s) a b")
      case (Inl e')
      with True Cons.prems x show ?thesis by auto
    next
      case (Inr t)
      with True Cons.prems x Cons.IH [of "s\<lparr>root := t, out := out s @ [Copied (basename a)]\<rparr>"]
      show ?thesis by auto
    qed
  qed
qed

subsection \<open>The QR images\<close>

lemma listdir_Inr:
  assumes "listdir t p = Inr fs"
  shows "distinct fs" and "f \<in> set fs \<longleftrightarrow> stat t (p @ [f]) \<noteq> None" and "isdir t p"
proof -
  from assms obtain es where es: "lookup t p = Some (Dir es)" and fs: "fs = map fst (AList.clearjunk es)"
    by (auto simp: listdir_def split: option.splits node.splits)
  show "distinct fs" using fs by (simp add: distinct_clearjunk)
  have "f \<in> set fs \<longleftrightarrow> map_of (AList.clearjunk es) f \<noteq> None"
    using fs by (simp add: map_of_eq_None_iff)
  also have "\<dots> \<longleftrightarrow> map_of es f \<noteq> None" by (simp add: map_of_clearjunk)
  also have "\<dots> \<longleftrightarrow> stat t (p @ [f]) \<noteq> None"
    using es by (auto simp: stat_append stat_Dir_Cons split: option.splits)
  finally show "f \<in> set fs \<longleftrightarrow> stat t (p @ [f]) \<noteq> None" .
  show "isdir t p" using es by (simp add: isdir_def stat_def)
qed

lemma qr_source_apart: "\<not> prefix (package_dir @ [''qrcodes'', f']) (qrcodes_dir @ [f])"
  by (simp add: package_dir_def qrcodes_dir_def package_name_def)

lemma copy_qr_files_frame:
  "\<forall>f\<in>set files. \<not> prefix (package_dir @ [''qrcodes'', f]) q \<Longrightarrow>
   stat (root (final (copy_qr_files ev files s))) q = stat (root s) q"
proof (induction files arbitrary: s)
  case Nil
  show ?case by simp
next
  case (Cons f files)
  then have nd: "\<not> prefix (package_dir @ [''qrcodes'', f]) q"
    and rest: "\<forall>f\<in>set files. \<not> prefix (package_dir @ [''qrcodes'', f]) q" by auto
  show ?case
  proof (cases "copy2 ev (root s) (qrcodes_dir @ [f]) (package_dir @ [''qrcodes'', f])")
    case (Inl e)
    with Cons.IH [OF rest] show ?thesis by simp
  next
    case (Inr t)
    with Cons.IH [OF rest] copy2_other [OF Inr nd] show ?thesis by simp
  qed
qed

lemma copy_qr_files_isdir: "isdir (root (final (copy_qr_files ev files s))) q = isdir (root s) q"
proof (induction files arbitrary: s)
  case Nil
  show ?case by simp
next
  case (Cons f files)
  show ?case
  proof (cases "copy2 ev (root s) (qrcodes_dir @ [f]) (package_dir @ [''qrcodes'', f])")
    case (Inl e)
    with Cons.IH show ?thesis by simp
  next
    case (Inr t)
    with Cons.IH copy2_isdir [OF Inr] show ?thesis by simp
  qed
qed

lemma copy_qr_files_out:
  "copy_qr_files ev files s = Done s' \<Longrightarrow>
   out s' = out s @ map CopiedQR (filter (\<lambda>f. endswith f ''.png'') files)"
  by (induction files arbitrary: s) (auto split: sum.splits if_splits)

lemma qr_target_apart:
  "f' \<noteq> f \<Longrightarrow> \<not> prefix (package_dir @ [''qrcodes'', f']) (copy_target t a (package_dir @ [''qrcodes'', f]))"
  by (auto simp: copy_target_def)

lemma copy_qr_files_copied:
  assumes "copy_qr_files ev files s = Done s'" and "distinct files"
    and "f \<in> set files" and "endswith f ''.png''"
  shows "\<exists>c m. stat (root s) (qrcodes_dir @ [f]) = Some (IsFile c m)
           \<and> stat (root s') (copy_target (root s) (qrcodes_dir @ [f]) (package_dir @ [''qrcodes'', f]))
               = Some (IsFile c m)
           \<and> \<not> denied ev (copy_target (root s) (qrcodes_dir @ [f]) (package_dir @ [''qrcodes'', f]))"
  using assms
proof (induction files arbitrary: s)
  case Nil
  then show ?case by simp
next
  case (Cons x files)
  show ?case
  proof (cases "endswith x ''.png''")
    case False
    with Cons.prems have "copy_qr_files ev files s = Done s'" "f \<in> set files" "distinct files"
      by auto
    with Cons.IH Cons.prems(4) show ?thesis by blast
  next
    case True
    with Cons.prems(1) obtain t
      where cp: "copy2 ev (root s) (qrcodes_dir @ [x]) (package_dir @ [''qrcodes'', x]) = Inr t"
      and run: "copy_qr_files ev files (s\<lparr>root := t, out := out s @ [CopiedQR x]\<rparr>) = Done s'"
      by (auto split: sum.splits)
    show ?thesis
    proof (cases "f = x")
      case True
      from copy2_Inr [OF cp] obtain c m where c: "stat (root s) (qrcodes_dir @ [x]) = Some (IsFile c m)"
        and u: "stat t = (stat (root s))(copy_target (root s) (qrcodes_dir @ [x]) (package_dir @ [''qrcodes'', x]) \<mapsto> IsFile c m)"
        and d: "\<not> denied ev (copy_target (root s) (qrcodes_dir @ [x]) (package_dir @ [''qrcodes'', x]))"
        by blast
      from Cons.prems(2) have "\<forall>f'\<in>set files. f' \<noteq> x" by auto
      then have "\<forall>f'\<in>set files. \<not> prefix (package_dir @ [''qrcodes'', f'])
          (copy_target (root s) (qrcodes_dir @ [x]) (package_dir @ [''qrcodes'', x]))"
        using qr_target_apart by blast
      from copy_qr_files_frame [OF this, of ev "s\<lparr>root := t, out := out s @ [CopiedQR x]\<rparr>"] run u
      have "stat (root s') (copy_target (root s) (qrcodes_dir @ [x]) (package_dir @ [''qrcodes'', x]))
            = Some (IsFile c m)" by simp
      with c d True show ?thesis by auto
    next
      case False
      with Cons.prems have mem: "f \<in> set files" and dist: "distinct files" by auto
      from Cons.IH [OF run dist mem Cons.prems(4)]
        copy2_other [OF cp qr_source_apart [of x f]] copy2_copy_target [OF cp]
      show ?thesis by simp
    qed
  qed
qed

lemma copy_qrcodes_frame:
  assumes "\<not> strict_prefix (package_dir @ [''qrcodes'']) q"
  shows "stat (root (final (copy_qrcodes ev s))) q = stat (root s) q"
proof -
  have "\<not> prefix (package_dir @ [''qrcodes'', f]) q" for f
  proof
    assume "prefix (package_dir @ [''qrcodes'', f]) q"
    then obtain r where "q = (package_dir @ [''qrcodes'']) @ f # r" by (auto simp: prefix_def)
    with assms show False by (simp add: strict_prefix_def)
  qed
  then show ?thesis
    by (auto simp: copy_qrcodes_def copy_qr_files_frame split: sum.splits)
qed

lemma copy_qrcodes_isdir: "isdir (root (final (copy_qrcodes ev s))) q = isdir (root s) q"
  by (auto simp: copy_qrcodes_def copy_qr_files_isdir split: sum.splits)

lemma copy_qrcodes_absent: "\<not> exists (root s) qrcodes_dir \<Longrightarrow> copy_qrcodes ev s = Done s"
  by (simp add: copy_qrcodes_def)


subsection \<open>README and archive\<close>

lemma write_readme_Done:
  assumes "write_readme ev s = Done s'"
  shows "stat (root s') = (stat (root s))(package_dir @ [''README.md''] \<mapsto> IsFile (Bytes readme_content) (stamp ev))"
    and "out s' = out s @ [CreatedReadme]"
    and "\<not> denied ev (package_dir @ [''README.md''])"
  using assms by (auto simp: write_readme_def split: sum.splits dest!: write_file_Inr)

lemma write_readme_Raised: "write_readme ev s = Raised e s' \<Longrightarrow> s' = s"
  by (auto simp: write_readme_def split: sum.splits)

lemma zip_file_name: "dirname (splitext_root zip_path) @ [basename (splitext_root zip_path) @ ''.zip''] = zip_path"
  by (simp add: splitext_root_def zip_path_def basename_def dirname_def package_name_def Let_def)

lemma zip_apart: "\<not> prefix zip_path package_dir" "\<not> prefix package_dir zip_path"
  by (simp_all add: zip_path_def package_dir_def package_name_def)

lemma make_zip_Done:
  assumes "make_zip ev s = Done s'"
  shows "\<exists>n. lookup (root s) package_dir = Some n
            \<and> lookup (root s') package_dir = Some n
            \<and> stat (root s') = (stat (root s))(zip_path \<mapsto> IsFile (Zip (walk [package_name] n)) (stamp ev))"
    and "out s' = out s @ [PackageCreated zip_path, TotalSize]"
    and "\<not> denied ev zip_path"
proof -
  from assms obtain t where ma: "make_archive ev (root s) (splitext_root zip_path) base_dir [package_name] = Done t"
    and s': "s' = s\<lparr>root := t, out := out s @ [PackageCreated zip_path, TotalSize]\<rparr>"
    by (auto simp: make_zip_def split: outcome.splits)
  from ma obtain t1 n where w: "write_file ev (root s) zip_path (Zip []) = Inr t1"
    and n: "lookup t1 package_dir = Some n"
    and t: "t = put t1 zip_path (File (Zip (walk [package_name] n)) (stamp ev))"
    by (auto simp: make_archive_def zip_file_name package_dir_def split: sum.splits option.splits)
  from w have t1: "t1 = put (root s) zip_path (File (Zip []) (stamp ev))"
    by (auto simp: write_file_def split: option.splits)
  note w' = write_file_Inr [OF w]
  have "stat t1 zip_path \<noteq> Some IsDir" "stat t1 (butlast zip_path) = Some IsDir" "zip_path \<noteq> []"
    using w' stat_parent_dir [of t1 zip_path] by (auto simp: dirname_def)
  then have "stat t = (stat t1)(zip_path \<mapsto> IsFile (Zip (walk [package_name] n)) (stamp ev))"
    unfolding t by (rule_tac stat_put_file) auto
  with w' have st: "stat t = (stat (root s))(zip_path \<mapsto> IsFile (Zip (walk [package_name] n)) (stamp ev))"
    by auto
  have "lookup (root s) package_dir = Some n" "lookup t package_dir = Some n"
    using n zip_apart by (simp_all add: t t1 lookup_put_apart)
  with st s' show "\<exists>n. lookup (root s) package_dir = Some n
            \<and> lookup (root s') package_dir = Some n
            \<and> stat (root s') = (stat (root s))(zip_path \<mapsto> IsFile (Zip (walk [package_name] n)) (stamp ev))"
    by auto
  show "out s' = out s @ [PackageCreated zip_path, TotalSize]" using s' by simp
  show "\<not> denied ev zip_path" using w' by simp
qed

lemma make_zip_frame: "q \<noteq> zip_path \<Longrightarrow> stat (root (final (make_zip ev s))) q = stat (root s) q"
proof (cases "write_file ev (root s) zip_path (Zip [])")
  case (Inl e)
  assume "q \<noteq> zip_path"
  with Inl show ?thesis
    by (simp add: make_zip_def make_archive_def zip_file_name)
next
  case (Inr t1)
  assume q: "q \<noteq> zip_path"
  note w' = write_file_Inr [OF Inr]
  have "stat t1 zip_path \<noteq> Some IsDir" "stat t1 (butlast zip_path) = Some IsDir" "zip_path \<noteq> []"
    using w' stat_parent_dir [of t1 zip_path] by (auto simp: dirname_def)
  then have "stat (put t1 zip_path (File c m)) = (stat t1)(zip_path \<mapsto> IsFile c m)" for c m
    by (rule_tac stat_put_file) auto
  with q w' Inr show ?thesis
    by (auto simp: make_zip_def make_archive_def zip_file_name split: option.splits)
qed

section \<open>Properties of the script\<close>

subsection \<open>Facts about the fixed paths\<close>

lemma separate_copies: "separate copies"
  by (simp add: separate_def copies_def package_dir_def package_name_def)

lemma copies_shape:
  assumes "(src, dst) \<in> set copies"
  shows "\<exists>x y z r. dst = package_dir @ [x, y] \<and> x \<noteq> ''qrcodes''
           \<and> src = base_dir @ z # r \<and> z \<noteq> package_name \<and> z \<noteq> ''qrcodes''
           \<and> z \<noteq> package_name @ ''.zip''"
  using assms by (auto simp: copies_def package_name_def)

lemma manifest_paths:
  assumes "(src, dst) \<in> set copies"
  shows "\<not> prefix (copy_target t src dst) (package_dir @ [d])"
    and "\<not> prefix dst (package_dir @ [d])"
    and "\<not> prefix src (package_dir @ [d])"
    and "\<not> strict_prefix (package_dir @ [''qrcodes'']) (copy_target t src dst)"
    and "\<not> strict_prefix (package_dir @ [''qrcodes'']) dst"
    and "copy_target t src dst \<noteq> package_dir @ [''README.md'']"
    and "dst \<noteq> package_dir @ [''README.md'']"
    and "copy_target t src dst \<noteq> zip_path"
    and "dst \<noteq> zip_path"
    and "\<not> prefix (package_dir @ [''qrcodes'', f]) src"
    and "src \<noteq> zip_path" and "src \<noteq> package_dir @ [''README.md'']"
  using copies_shape [OF assms]
  by (auto simp: copy_target_def package_dir_def zip_path_def strict_prefix_def)

lemma qr_paths:
  shows "\<not> prefix (copy_target t a (package_dir @ [''qrcodes'', f])) (package_dir @ [d])"
    and "\<not> prefix (package_dir @ [''qrcodes'', f]) (package_dir @ [d])"
    and "\<not> prefix (qrcodes_dir @ [f]) (package_dir @ [d])"
    and "\<not> prefix qrcodes_dir (package_dir @ [d])"
    and "(src, dst) \<in> set copies \<Longrightarrow> \<not> prefix dst (copy_target t a (package_dir @ [''qrcodes'', f]))"
    and "(src, dst) \<in> set copies \<Longrightarrow> \<not> prefix dst (package_dir @ [''qrcodes'', f])"
    and "(src, dst) \<in> set copies \<Longrightarrow> \<not> prefix dst (qrcodes_dir @ [f])"
    and "(src, dst) \<in> set copies \<Longrightarrow> \<not> prefix dst qrcodes_dir"
    and "copy_target t a (package_dir @ [''qrcodes'', f]) \<noteq> package_dir @ [''README.md'']"
    and "copy_target t a (package_dir @ [''qrcodes'', f]) \<noteq> zip_path"
    and "qrcodes_dir @ [f] \<noteq> zip_path" and "qrcodes_dir @ [f] \<noteq> package_dir @ [''README.md'']"
         apply (auto simp: copy_target_def package_dir_def zip_path_def qrcodes_dir_def package_name_def)
     apply (drule copies_shape, auto simp: package_dir_def package_name_def)+
  done

lemma readme_paths:
  shows "\<not> prefix (package_dir @ [''README.md'']) (package_dir @ [d])
          \<or> d = ''README.md''"
    and "package_dir @ [''README.md''] \<noteq> zip_path"
    and "\<not> strict_prefix (package_dir @ [''qrcodes'']) (package_dir @ [''README.md''])"
    and "(src, dst) \<in> set copies \<Longrightarrow> \<not> prefix dst (package_dir @ [''README.md''])"
     apply (auto simp: package_dir_def zip_path_def strict_prefix_def)
  apply (drule copies_shape, auto simp: package_dir_def package_name_def)
  done

subsection \<open>The stages of a run\<close>

lemma and_then_Done: "and_then r f = Done s \<longleftrightarrow> (\<exists>s'. r = Done s' \<and> f s' = Done s)"
  by (cases r) auto

lemma and_then_Raised:
  "and_then r f = Raised e s \<longleftrightarrow> r = Raised e s \<or> (\<exists>s'. r = Done s' \<and> f s' = Raised e s)"
  by (cases r) auto

lemma create_package_Done:
  "create_package ev t = Done s \<longleftrightarrow>
     (\<exists>s1 s2 s3 s4. make_dirs ev \<lparr>root = t, out = []\<rparr> = Done s1 \<and> copy_files ev copies s1 = Done s2
        \<and> copy_qrcodes ev s2 = Done s3 \<and> write_readme ev s3 = Done s4 \<and> make_zip ev s4 = Done s)"
  by (simp add: create_package_def and_then_Done)

lemma write_readme_frame:
  "q \<noteq> package_dir @ [''README.md''] \<Longrightarrow> stat (root (final (write_readme ev s))) q = stat (root s) q"
  by (auto simp: write_readme_def split: sum.splits dest!: write_file_Inr)

lemma write_readme_isdir: "isdir (root (final (write_readme ev s))) q = isdir (root s) q"
  by (auto simp: write_readme_def isdir_def split: sum.splits if_splits dest!: write_file_Inr)

lemma make_zip_isdir: "isdir (root (final (make_zip ev s))) q = isdir (root s) q"
proof (cases "q = zip_path")
  case False
  then show ?thesis by (simp add: isdir_def make_zip_frame)
next
  case True
  show ?thesis
  proof (cases "write_file ev (root s) zip_path (Zip [])")
    case (Inl e)
    then show ?thesis by (simp add: make_zip_def make_archive_def zip_file_name)
  next
    case (Inr t1)
    note w' = write_file_Inr [OF Inr]
    have "stat t1 zip_path \<noteq> Some IsDir" "stat t1 (butlast zip_path) = Some IsDir" "zip_path \<noteq> []"
      using w' stat_parent_dir [of t1 zip_path] by (auto simp: dirname_def)
    then have "stat (put t1 zip_path (File c m)) = (stat t1)(zip_path \<mapsto> IsFile c m)" for c m
      by (rule_tac stat_put_file) auto
    with True w' Inr show ?thesis
      by (auto simp: make_zip_def make_archive_def zip_file_name isdir_def split: option.splits)
  qed
qed

lemma make_dirs_keeps: "stat (root s) q = Some e \<Longrightarrow> stat (root (final (make_dirs ev s))) q = Some e"
  using make_dirs_grows [of ev s q] by auto

lemma make_dirs_other:
  "\<forall>d\<in>set dirs. \<not> prefix q (package_dir @ [d]) \<Longrightarrow> stat (root (final (make_dirs ev s))) q = stat (root s) q"
  using make_dirs_grows [of ev s q] by auto

lemma make_dirs_isdir_keeps: "isdir (root s) q \<Longrightarrow> isdir (root (final (make_dirs ev s))) q"
  by (simp add: isdir_def make_dirs_keeps)

text \<open>What the first two stages leave for an entry of the manifest whose source is a file.\<close>

lemma manifest_in_place:
  assumes md: "make_dirs ev \<lparr>root = t, out = []\<rparr> = Done s1"
    and cf: "copy_files ev copies s1 = Done s2"
    and mem: "(src, dst) \<in> set copies"
    and src: "stat t src = Some (IsFile c m)"
  shows "stat (root s2) (copy_target t src dst) = Some (IsFile c m)"
    and "\<not> denied ev (copy_target t src dst)"
    and "src \<noteq> copy_target t src dst"
    and "stat (root s2) src = Some (IsFile c m)"
proof -
  from make_dirs_keeps [of "\<lparr>root = t, out = []\<rparr>" src _ ev] md src
  have s1: "stat (root s1) src = Some (IsFile c m)" by simp
  from make_dirs_other [of dst ev "\<lparr>root = t, out = []\<rparr>"] md manifest_paths(2) [OF mem]
  have "stat (root s1) dst = stat t dst" by simp
  then have ct: "copy_target (root s1) src dst = copy_target t src dst"
    by (simp add: copy_target_def isdir_def)
  from s1 have "exists (root s1) src" by (simp add: exists_def)
  from copy_files_copied [OF cf separate_copies mem this] s1 ct
  show "stat (root s2) (copy_target t src dst) = Some (IsFile c m)"
    and "\<not> denied ev (copy_target t src dst)"
    and "src \<noteq> copy_target t src dst" by auto
  from mem have "src \<in> set (map fst copies)" by force
  with separate_copies have "\<forall>d\<in>set (map snd copies). \<not> prefix d src"
    by (auto simp: separate_def)
  from copy_files_frame [OF this, of ev s1] cf s1
  show "stat (root s2) src = Some (IsFile c m)" by simp
qed

lemma after_copies_frame:
  assumes "copy_qrcodes ev s2 = Done s3" "write_readme ev s3 = Done s4" "make_zip ev s4 = Done s"
    and "\<not> strict_prefix (package_dir @ [''qrcodes'']) q" "q \<noteq> package_dir @ [''README.md'']"
    "q \<noteq> zip_path"
  shows "stat (root s) q = stat (root s2) q"
  using copy_qrcodes_frame [OF assms(4), of ev s2] write_readme_frame [OF assms(5), of ev s3]
    make_zip_frame [OF assms(6), of ev s4] assms(1,2,3)
  by simp

lemma manifest_copied_aux:
  assumes "create_package ev t = Done s" "(src, dst) \<in> set copies" "stat t src = Some (IsFile c m)"
  shows "stat (root s) (copy_target t src dst) = Some (IsFile c m)"
proof -
  from assms(1) obtain s1 s2 s3 s4 where st: "make_dirs ev \<lparr>root = t, out = []\<rparr> = Done s1"
    "copy_files ev copies s1 = Done s2" "copy_qrcodes ev s2 = Done s3"
    "write_readme ev s3 = Done s4" "make_zip ev s4 = Done s"
    by (auto simp: create_package_Done)
  from after_copies_frame [OF st(3,4,5) manifest_paths(4,6,8) [OF assms(2), where t = t]]
    manifest_in_place(1) [OF st(1,2) assms(2,3)]
  show ?thesis by simp
qed

lemma copy_files_frame_missing:
  assumes "separate cs" and "\<forall>(a, b)\<in>set cs. exists (root s) a \<longrightarrow> \<not> prefix b q"
  shows "stat (root (final (copy_files ev cs s))) q = stat (root s) q"
  using assms
proof (induction cs arbitrary: s)
  case Nil
  show ?case by simp
next
  case (Cons x cs)
  obtain a b where x: "x = (a, b)" by (cases x)
  note sep = Cons.prems(1) [unfolded x]
  show ?case
  proof (cases "exists (root s) a")
    case False
    with Cons.IH [OF separate_Cons(1) [OF sep], of "s\<lparr>out := out s @ [NotFound a]\<rparr>"] Cons.prems(2) x
    show ?thesis by auto
  next
    case True
    with Cons.prems(2) x have nb: "\<not> prefix b q" by auto
    show ?thesis
    proof (cases "copy2 ev (root s) a b")
      case (Inl e)
      with True x show ?thesis by simp
    next
      case (Inr t)
      have "\<forall>(a', b')\<in>set cs. exists t a' \<longrightarrow> \<not> prefix b' q"
      proof clarify
        fix a' b' assume m: "(a', b') \<in> set cs" and e: "exists t a'" and p: "prefix b' q"
        from m have "a' \<in> set (map fst cs)" by force
        with separate_Cons(3) [OF sep] have "\<not> prefix b a'" by blast
        from copy2_other [OF Inr this] e have "exists (root s) a'" by (simp add: exists_def)
        with Cons.prems(2) m p show False by auto
      qed
      with Cons.IH [OF separate_Cons(1) [OF sep], of "s\<lparr>root := t, out := out s @ [Copied (basename a)]\<rparr>"]
        copy2_other [OF Inr nb] True x Inr
      show ?thesis by simp
    qed
  qed
qed

lemma count_not_found:
  assumes "distinct (map fst cs)" and "(src, dst) \<in> set cs" and "\<not> ex src"
  shows "count_list (map (\<lambda>(a, b). if ex a then Copied (basename a) else NotFound a) cs) (NotFound src) = 1"
proof -
  have z: "src \<notin> set (map fst xs) \<Longrightarrow>
      count_list (map (\<lambda>(a, b). if ex a then Copied (basename a) else NotFound a) xs) (NotFound src) = 0" for xs
    by (induction xs) (auto split: if_splits)
  from assms show ?thesis
  proof (induction cs)
    case Nil
    then show ?case by simp
  next
    case (Cons x cs)
    obtain a b where x: "x = (a, b)" by (cases x)
    show ?case
    proof (cases "a = src")
      case True
      with Cons.prems x z [of cs] show ?thesis by auto
    next
      case False
      with Cons x show ?thesis by auto
    qed
  qed
qed

lemma same_destination:
  "distinct (map snd cs) \<Longrightarrow> (a, d) \<in> set cs \<Longrightarrow> (a', d) \<in> set cs \<Longrightarrow> a = a'"
  by (induction cs) force+

lemma copy_qrcodes_out: "copy_qrcodes ev s = Done s' \<Longrightarrow> \<exists>fs. out s' = out s @ map CopiedQR fs"
  by (auto simp: copy_qrcodes_def split: if_splits sum.splits dest!: copy_qr_files_out intro: exI [of _ "[]"])

lemma distinct_sources: "distinct (map fst copies)"
  by (simp add: copies_def)

lemma source_exists_after_dirs:
  assumes "(src, dst) \<in> set copies"
  shows "stat (root (final (make_dirs ev \<lparr>root = t, out = []\<rparr>))) src = stat t src"
  using make_dirs_other [of src ev "\<lparr>root = t, out = []\<rparr>"] manifest_paths(3) [OF assms] by simp

subsection \<open>The README text\<close>

lemma sublist_in_context: "sublist d l \<Longrightarrow> sublist d (ps @ l @ ss)"
proof -
  assume "sublist d l"
  then obtain a b where "l = a @ d @ b" by (auto simp: sublist_def)
  then have "ps @ l @ ss = (ps @ a) @ d @ (b @ ss)" by simp
  then show ?thesis unfolding sublist_def by blast
qed

lemma sublist_unlines:
  assumes "l \<in> set ls" and "sublist d l"
  shows "sublist d (concat (map (\<lambda>l. l @ [c]) ls))"
proof -
  from assms(1) obtain xs ys where "ls = xs @ l # ys" by (auto dest: split_list)
  then have "concat (map (\<lambda>l. l @ [c]) ls)
      = concat (map (\<lambda>l. l @ [c]) xs) @ l @ ([c] @ concat (map (\<lambda>l. l @ [c]) ys))" by simp
  with sublist_in_context [OF assms(2)] show ?thesis by simp
qed

lemma dir_lines:
  "sublist ''guides'' (readme_lines ! 5)"
  "sublist ''worksheets'' (readme_lines ! 6)"
  "sublist ''templates'' (readme_lines ! 7)"
  "sublist ''qrcodes'' (readme_lines ! 8)"
  "sublist ''resources'' (readme_lines ! 9)"
  by (simp_all add: readme_lines_def sublist_code)

lemma length_readme_lines: "length readme_lines = 32"
  by (simp add: readme_lines_def)

lemma sublist_readme: "\<forall>d\<in>set dirs. sublist d readme_content"
proof -
  have "sublist d readme_content" if "sublist d (readme_lines ! i)" "i < 32" for d i
    unfolding readme_content_def using that length_readme_lines
    by (intro sublist_unlines [where l = "readme_lines ! i"]) auto
  from this [OF dir_lines(1)] this [OF dir_lines(2)] this [OF dir_lines(3)]
    this [OF dir_lines(4)] this [OF dir_lines(5)]
  show ?thesis by (simp add: dirs_def)
qed

subsection \<open>Unpacking an archive\<close>

lemma view_Nil [simp]: "view n [] = Some (data_of (entry_of n))"
  by (simp add: view_def)

lemma view_File_Cons [simp]: "view (File c m) (x # r) = None"
  by (simp add: view_def)

lemma view_Dir_Cons:
  "view (Dir es) (x # r) = (case map_of es x of None \<Rightarrow> None | Some n \<Rightarrow> view n r)"
  by (simp add: view_def stat_Dir_Cons split: option.splits)

lemma view_append:
  "view t (p @ q) = (case lookup t p of None \<Rightarrow> None | Some n \<Rightarrow> view n q)"
  by (simp add: view_def stat_append split: option.splits)

lemma makedirs_fresh:
  assumes "p \<noteq> []" "stat t (butlast p) = Some IsDir" "stat t p = None" "\<not> denied ev p"
  shows "\<exists>t1. makedirs ev t p = Done t1 \<and> stat t1 = (stat t)(p \<mapsto> IsDir)"
proof -
  from assms have "mkdir ev t p = Inr (put t p (Dir []))"
    by (simp add: mkdir_def dirname_def exists_def)
  with assms(2) have "makedirs ev t p = Done (put t p (Dir []))"
    by (subst makedirs.simps) (simp add: dirname_def exists_def)
  with stat_put_dir [OF assms(1,2,3)] show ?thesis by simp
qed

lemma write_file_fresh:
  assumes "p \<noteq> []" "stat t (butlast p) = Some IsDir" "stat t p \<noteq> Some IsDir" "\<not> denied ev p"
  shows "\<exists>t1. write_file ev t p c = Inr t1 \<and> stat t1 = (stat t)(p \<mapsto> IsFile c (stamp ev))"
  using assms stat_put_file [OF assms(1,2,3)]
  by (simp add: write_file_def open_w_def dirname_def isdir_def)

lemma extract_walk:
  fixes ev :: "'m env"
  assumes nd: "\<And>q. \<not> denied ev q"
  shows "\<forall>t::'m node. p \<noteq> [] \<longrightarrow> stat t (butlast p) = Some IsDir \<longrightarrow> stat t p = None \<longrightarrow>
           (\<exists>t'. foldl (extract_member ev []) (Done t) (walk p (n::'k node)) = Done t'
               \<and> (\<forall>q. \<not> prefix p q \<longrightarrow> stat t' q = stat t q)
               \<and> (\<forall>r. view t' (p @ r) = view n r))"
    and "\<forall>t::'m node. stat t p = Some IsDir \<longrightarrow> (\<forall>x. x \<notin> set seen \<longrightarrow> stat t (p @ [x]) = None) \<longrightarrow>
           (\<exists>t'. foldl (extract_member ev []) (Done t)
                    (walk_children p seen (es::(string \<times> 'k node) list)) = Done t'
               \<and> (\<forall>q. \<not> (\<exists>x r. q = p @ x # r \<and> x \<notin> set seen \<and> x \<in> fst ` set es)
                      \<longrightarrow> stat t' q = stat t q)
               \<and> (\<forall>x r. x \<notin> set seen \<longrightarrow> x \<in> fst ` set es \<longrightarrow>
                      view t' (p @ x # r) = (case map_of es x of None \<Rightarrow> None | Some n \<Rightarrow> view n r)))"
proof (induction p n and p seen es rule: walk_walk_children.induct)
  case (1 p c m)
  show ?case
  proof (intro allI impI)
    fix t :: "'m node"
    assume p: "p \<noteq> []" and par: "stat t (butlast p) = Some IsDir" and ab: "stat t p = None"
    from par have "makedirs ev t (butlast p) = Done t"
      by (simp add: makedirs_idem isdir_def)
    moreover from write_file_fresh [OF p par _ nd, of c] ab obtain t1
      where w: "write_file ev t p c = Inr t1" and s1: "stat t1 = (stat t)(p \<mapsto> IsFile c (stamp ev))"
      by auto
    ultimately have run: "foldl (extract_member ev []) (Done t) (walk p (File c m)) = Done t1"
      by (simp add: dirname_def)
    have "view t1 (p @ r) = view (File c m) r" for r
    proof (cases r)
      case Nil
      with s1 show ?thesis by (simp add: view_def)
    next
      case (Cons x r')
      with s1 ab stat_below_absent [of t p x r'] show ?thesis by (simp add: view_def)
    qed
    with run s1 show "\<exists>t'. foldl (extract_member ev []) (Done t) (walk p (File c m)) = Done t'
               \<and> (\<forall>q. \<not> prefix p q \<longrightarrow> stat t' q = stat t q)
               \<and> (\<forall>r. view t' (p @ r) = view (File c m) r)"
      by auto
  qed
next
  case (2 p es)
  show ?case
  proof (intro allI impI)
    fix t :: "'m node"
    assume p: "p \<noteq> []" and par: "stat t (butlast p) = Some IsDir" and ab: "stat t p = None"
    from makedirs_fresh [OF p par ab nd] obtain t1 where m: "makedirs ev t p = Done t1"
      and s1: "stat t1 = (stat t)(p \<mapsto> IsDir)" by blast
    have below: "stat t (p @ x # r) = None" for x r
      using ab stat_below_absent [of t p x r] by simp
    from s1 below have "stat t1 p = Some IsDir" "\<forall>x. x \<notin> set [] \<longrightarrow> stat t1 (p @ [x]) = None"
      by auto
    with "2.IH" obtain t' where
      run: "foldl (extract_member ev []) (Done t1) (walk_children p [] es) = Done t'"
      and fr: "\<forall>q. \<not> (\<exists>x r. q = p @ x # r \<and> x \<notin> set [] \<and> x \<in> fst ` set es) \<longrightarrow> stat t' q = stat t1 q"
      and vw: "\<forall>x r. x \<notin> set [] \<longrightarrow> x \<in> fst ` set es \<longrightarrow>
                  view t' (p @ x # r) = (case map_of es x of None \<Rightarrow> None | Some n \<Rightarrow> view n r)"
      by blast
    from m run have run': "foldl (extract_member ev []) (Done t) (walk p (Dir es)) = Done t'"
      by simp
    have out: "stat t' q = stat t q" if "\<not> prefix p q" for q
    proof -
      from that have "\<not> (\<exists>x r. q = p @ x # r \<and> x \<notin> set [] \<and> x \<in> fst ` set es)" "q \<noteq> p"
        by auto
      with fr s1 show ?thesis by simp
    qed
    have inn: "view t' (p @ r) = view (Dir es) r" for r
    proof (cases r)
      case Nil
      have "\<not> (\<exists>x r. p = p @ x # r \<and> x \<notin> set [] \<and> x \<in> fst ` set es)" by simp
      with fr s1 Nil show ?thesis by (simp add: view_def)
    next
      case (Cons x r')
      show ?thesis
      proof (cases "x \<in> fst ` set es")
        case True
        with vw Cons show ?thesis by (simp add: view_Dir_Cons)
      next
        case False
        then have "map_of es x = None" by (simp add: map_of_eq_None_iff)
        moreover from False have "\<not> (\<exists>y r. p @ x # r' = p @ y # r \<and> y \<notin> set [] \<and> y \<in> fst ` set es)"
          by simp
        with fr have "stat t' (p @ x # r') = stat t1 (p @ x # r')" by blast
        ultimately show ?thesis using Cons s1 below [of x r'] by (simp add: view_def stat_Dir_Cons)
      qed
    qed
    from run' out inn show "\<exists>t'. foldl (extract_member ev []) (Done t) (walk p (Dir es)) = Done t'
               \<and> (\<forall>q. \<not> prefix p q \<longrightarrow> stat t' q = stat t q)
               \<and> (\<forall>r. view t' (p @ r) = view (Dir es) r)"
      by blast
  qed
next
  case (3 p seen)
  show ?case by simp
next
  case (4 p seen x n es)
  show ?case
  proof (intro allI impI)
    fix t :: "'m node"
    assume dir: "stat t p = Some IsDir" and ab: "\<forall>y. y \<notin> set seen \<longrightarrow> stat t (p @ [y]) = None"
    show "\<exists>t'. foldl (extract_member ev []) (Done t) (walk_children p seen ((x, n) # es)) = Done t'
               \<and> (\<forall>q. \<not> (\<exists>y r. q = p @ y # r \<and> y \<notin> set seen \<and> y \<in> fst ` set ((x, n) # es))
                      \<longrightarrow> stat t' q = stat t q)
               \<and> (\<forall>y r. y \<notin> set seen \<longrightarrow> y \<in> fst ` set ((x, n) # es) \<longrightarrow>
                      view t' (p @ y # r)
                        = (case map_of ((x, n) # es) y of None \<Rightarrow> None | Some n \<Rightarrow> view n r))"
    proof (cases "x \<in> set seen")
      case True
      from ab have "\<forall>y. y \<notin> set (x # seen) \<longrightarrow> stat t (p @ [y]) = None" by simp
      with "4.IH"(2) dir obtain t' where
        run: "foldl (extract_member ev []) (Done t) (walk_children p (x # seen) es) = Done t'"
        and fr: "\<forall>q. \<not> (\<exists>y r. q = p @ y # r \<and> y \<notin> set (x # seen) \<and> y \<in> fst ` set es)
                      \<longrightarrow> stat t' q = stat t q"
        and vw: "\<forall>y r. y \<notin> set (x # seen) \<longrightarrow> y \<in> fst ` set es \<longrightarrow>
                  view t' (p @ y # r) = (case map_of es y of None \<Rightarrow> None | Some n \<Rightarrow> view n r)"
        by blast
      from True run have "foldl (extract_member ev []) (Done t) (walk_children p seen ((x, n) # es)) = Done t'"
        by simp
      moreover from True fr have "\<forall>q. \<not> (\<exists>y r. q = p @ y # r \<and> y \<notin> set seen \<and> y \<in> fst ` set ((x, n) # es))
                      \<longrightarrow> stat t' q = stat t q"
        by auto
      moreover from True vw have "\<forall>y r. y \<notin> set seen \<longrightarrow> y \<in> fst ` set ((x, n) # es) \<longrightarrow>
                      view t' (p @ y # r)
                        = (case map_of ((x, n) # es) y of None \<Rightarrow> None | Some n \<Rightarrow> view n r)"
        by auto
      ultimately show ?thesis by blast
    next
      case False
      with ab have "stat t (p @ [x]) = None" by simp
      with "4.IH"(1) [OF False] dir obtain t1 where
        run1: "foldl (extract_member ev []) (Done t) (walk (p @ [x]) n) = Done t1"
        and fr1: "\<forall>q. \<not> prefix (p @ [x]) q \<longrightarrow> stat t1 q = stat t q"
        and vw1: "\<forall>r. view t1 ((p @ [x]) @ r) = view n r"
        by auto
      have "\<not> prefix (p @ [x]) p" by (simp add: prefix_def)
      with fr1 dir have dir1: "stat t1 p = Some IsDir" by simp
      have ab1: "\<forall>y. y \<notin> set (x # seen) \<longrightarrow> stat t1 (p @ [y]) = None"
      proof (intro allI impI)
        fix y assume "y \<notin> set (x # seen)"
        then have "\<not> prefix (p @ [x]) (p @ [y])" "y \<notin> set seen" by auto
        with fr1 ab show "stat t1 (p @ [y]) = None" by simp
      qed
      from "4.IH"(2) dir1 ab1 obtain t' where
        run: "foldl (extract_member ev []) (Done t1) (walk_children p (x # seen) es) = Done t'"
        and fr: "\<forall>q. \<not> (\<exists>y r. q = p @ y # r \<and> y \<notin> set (x # seen) \<and> y \<in> fst ` set es)
                      \<longrightarrow> stat t' q = stat t1 q"
        and vw: "\<forall>y r. y \<notin> set (x # seen) \<longrightarrow> y \<in> fst ` set es \<longrightarrow>
                  view t' (p @ y # r) = (case map_of es y of None \<Rightarrow> None | Some n \<Rightarrow> view n r)"
        by blast
      from False run1 run
      have r: "foldl (extract_member ev []) (Done t) (walk_children p seen ((x, n) # es)) = Done t'"
        by simp
      have f: "stat t' q = stat t q"
        if "\<not> (\<exists>y r. q = p @ y # r \<and> y \<notin> set seen \<and> y \<in> fst ` set ((x, n) # es))" for q
      proof -
        from that have "\<not> (\<exists>y r. q = p @ y # r \<and> y \<notin> set (x # seen) \<and> y \<in> fst ` set es)"
          by auto
        with fr have "stat t' q = stat t1 q" by blast
        moreover have "\<not> prefix (p @ [x]) q"
        proof
          assume "prefix (p @ [x]) q"
          then obtain r where "q = p @ x # r" by (auto simp: prefix_def)
          with that False show False by auto
        qed
        ultimately show ?thesis using fr1 by simp
      qed
      have v: "view t' (p @ y # r)
                 = (case map_of ((x, n) # es) y of None \<Rightarrow> None | Some n \<Rightarrow> view n r)"
        if "y \<notin> set seen" "y \<in> fst ` set ((x, n) # es)" for y r
      proof (cases "y = x")
        case True
        have "\<not> (\<exists>z r'. p @ x # r = p @ z # r' \<and> z \<notin> set (x # seen) \<and> z \<in> fst ` set es)"
          by simp
        with fr have "stat t' (p @ x # r) = stat t1 (p @ x # r)" by blast
        with vw1 [rule_format, of r] True show ?thesis by (simp add: view_def)
      next
        case ne: False
        with that have "y \<notin> set (x # seen)" "y \<in> fst ` set es" by auto
        with vw ne show ?thesis by simp
      qed
      from r f v show ?thesis by blast
    qed
  qed
qed


lemma members_zip: "stat t p = Some (IsFile (Zip ms) m) \<Longrightarrow> members t p = Some ms"
  by (simp add: members_def)

subsection \<open>Runs that raise\<close>


lemma create_package_Raised:
  "create_package ev t = Raised e s \<longleftrightarrow>
       make_dirs ev \<lparr>root = t, out = []\<rparr> = Raised e s
     \<or> (\<exists>s1. make_dirs ev \<lparr>root = t, out = []\<rparr> = Done s1 \<and>
           (copy_files ev copies s1 = Raised e s
          \<or> (\<exists>s2. copy_files ev copies s1 = Done s2 \<and>
                (copy_qrcodes ev s2 = Raised e s
               \<or> (\<exists>s3. copy_qrcodes ev s2 = Done s3 \<and>
                     (write_readme ev s3 = Raised e s
                    \<or> (\<exists>s4. write_readme ev s3 = Done s4 \<and> make_zip ev s4 = Raised e s)))))))"
  by (simp add: create_package_def and_then_Raised)


subsection \<open>Writing what is already there\<close>

lemma lookup_file: "stat t p = Some (IsFile c m) \<Longrightarrow> lookup t p = Some (File c m)"
proof -
  assume a: "stat t p = Some (IsFile c m)"
  then obtain n where n: "lookup t p = Some n" and e: "entry_of n = IsFile c m"
    by (auto simp: stat_def)
  from e have "n = File c m" by (cases n) auto
  with n show ?thesis by simp
qed

lemma put_same: "lookup t p = Some n \<Longrightarrow> put t p n = t"
proof (induction p arbitrary: t)
  case Nil
  then show ?case by simp
next
  case (Cons x xs)
  show ?case
  proof (cases t)
    case (File c m)
    with Cons.prems show ?thesis by simp
  next
    case (Dir es)
    with Cons.prems obtain k where k: "map_of es x = Some k" and l: "lookup k xs = Some n"
      by (auto split: option.splits)
    from Cons.IH [OF l] k Dir show ?thesis by (simp add: update_triv)
  qed
qed

lemma lookup_put_below:
  "lookup t p = Some n \<Longrightarrow> lookup (put t (p @ q) new) p = Some (put n q new)"
proof (induction p arbitrary: t)
  case Nil
  then show ?case by simp
next
  case (Cons x xs)
  show ?case
  proof (cases t)
    case (File c m)
    with Cons.prems show ?thesis by simp
  next
    case (Dir es)
    with Cons.prems obtain k where k: "map_of es x = Some k" and l: "lookup k xs = Some n"
      by (auto split: option.splits)
    from Cons.IH [OF l] k Dir show ?thesis by (simp add: update_conv')
  qed
qed

lemma walk_children_update:
  assumes "\<And>a. walk a n' = walk a n" and "map_of es x = Some n"
  shows "walk_children a seen (AList.update x n' es) = walk_children a seen es"
  using assms(2)
proof (induction es arbitrary: seen)
  case Nil
  then show ?case by simp
next
  case (Cons y es)
  obtain z k where y: "y = (z, k)" by (cases y)
  show ?case
  proof (cases "z = x")
    case True
    with Cons.prems y assms(1) show ?thesis by simp
  next
    case False
    with Cons y show ?thesis by simp
  qed
qed

lemma walk_put_meta:
  "lookup t p = Some (File c m) \<Longrightarrow> walk a (put t p (File c m')) = walk a t"
proof (induction p arbitrary: t a)
  case Nil
  then show ?case by simp
next
  case (Cons x xs)
  show ?case
  proof (cases t)
    case (File c0 m0)
    with Cons.prems show ?thesis by simp
  next
    case (Dir es)
    with Cons.prems obtain k where k: "map_of es x = Some k" and l: "lookup k xs = Some (File c m)"
      by (auto split: option.splits)
    from Cons.IH [OF l] have "\<And>a. walk a (put k xs (File c m')) = walk a k" .
    from walk_children_update [OF this k] k Dir show ?thesis by simp
  qed
qed

lemma copy2_same:
  assumes "copy2 ev t a b = Inr t'" and "stat t (copy_target t a b) = stat t a"
  shows "t' = t"
proof -
  from assms(1) obtain c m where c: "stat t a = Some (IsFile c m)"
    and t': "t' = put t (copy_target t a b) (File c m)"
    by (auto simp: copy2_def Let_def split: if_splits option.splits entry.splits)
  from c assms(2) have "lookup t (copy_target t a b) = Some (File c m)"
    by (simp add: lookup_file)
  with t' show ?thesis by (simp add: put_same)
qed

lemma copy_files_same_root:
  assumes "\<forall>(a, b)\<in>set cs. exists (root s) a \<longrightarrow>
             stat (root s) (copy_target (root s) a b) = stat (root s) a"
  shows "root (final (copy_files ev cs s)) = root s"
  using assms
proof (induction cs arbitrary: s)
  case Nil
  show ?case by simp
next
  case (Cons x cs)
  obtain a b where x: "x = (a, b)" by (cases x)
  show ?case
  proof (cases "exists (root s) a")
    case False
    with Cons.IH [of "s\<lparr>out := out s @ [NotFound a]\<rparr>"] Cons.prems x show ?thesis by auto
  next
    case True
    show ?thesis
    proof (cases "copy2 ev (root s) a b")
      case (Inl e)
      with True x show ?thesis by simp
    next
      case (Inr t')
      from True Cons.prems x have "stat (root s) (copy_target (root s) a b) = stat (root s) a"
        by auto
      from copy2_same [OF Inr this] have "t' = root s" .
      with Cons.IH [of "s\<lparr>root := t', out := out s @ [Copied (basename a)]\<rparr>"] Cons.prems True x Inr
      show ?thesis by auto
    qed
  qed
qed

lemma copy_qr_files_same_root:
  assumes "\<forall>f\<in>set files. endswith f ''.png'' \<longrightarrow>
             stat (root s) (copy_target (root s) (qrcodes_dir @ [f]) (package_dir @ [''qrcodes'', f]))
               = stat (root s) (qrcodes_dir @ [f])"
  shows "root (final (copy_qr_files ev files s)) = root s"
  using assms
proof (induction files arbitrary: s)
  case Nil
  show ?case by simp
next
  case (Cons f files)
  show ?case
  proof (cases "endswith f ''.png''")
    case False
    with Cons show ?thesis by auto
  next
    case True
    show ?thesis
    proof (cases "copy2 ev (root s) (qrcodes_dir @ [f]) (package_dir @ [''qrcodes'', f])")
      case (Inl e)
      with True show ?thesis by simp
    next
      case (Inr t')
      from True Cons.prems
      have "stat (root s) (copy_target (root s) (qrcodes_dir @ [f]) (package_dir @ [''qrcodes'', f]))
               = stat (root s) (qrcodes_dir @ [f])"
        by auto
      from copy2_same [OF Inr this] have "t' = root s" .
      with Cons.IH [of "s\<lparr>root := t', out := out s @ [CopiedQR f]\<rparr>"] Cons.prems True Inr
      show ?thesis by auto
    qed
  qed
qed

lemma copy_qrcodes_same_root:
  assumes "\<forall>f. exists (root s) (qrcodes_dir @ [f]) \<longrightarrow> endswith f ''.png'' \<longrightarrow>
             stat (root s) (copy_target (root s) (qrcodes_dir @ [f]) (package_dir @ [''qrcodes'', f]))
               = stat (root s) (qrcodes_dir @ [f])"
  shows "root (final (copy_qrcodes ev s)) = root s"
proof (cases "exists (root s) qrcodes_dir")
  case False
  then show ?thesis by (simp add: copy_qrcodes_def)
next
  case True
  show ?thesis
  proof (cases "listdir (root s) qrcodes_dir")
    case (Inl e)
    with True show ?thesis by (simp add: copy_qrcodes_def)
  next
    case (Inr fs)
    from listdir_Inr(2) [OF Inr] assms
    have "\<forall>f\<in>set fs. endswith f ''.png'' \<longrightarrow>
             stat (root s) (copy_target (root s) (qrcodes_dir @ [f]) (package_dir @ [''qrcodes'', f]))
               = stat (root s) (qrcodes_dir @ [f])"
      by (simp add: exists_def)
    from copy_qr_files_same_root [OF this] True Inr show ?thesis
      by (simp add: copy_qrcodes_def)
  qed
qed

subsection \<open>What a run that returns leaves behind\<close>

lemma dirs_in_place:
  assumes "create_package ev t = Done s"
  shows "isdir (root s) package_dir" and "\<forall>d\<in>set dirs. isdir (root s) (package_dir @ [d])"
proof -
  from assms obtain s1 s2 s3 s4 where st: "make_dirs ev \<lparr>root = t, out = []\<rparr> = Done s1"
    "copy_files ev copies s1 = Done s2" "copy_qrcodes ev s2 = Done s3"
    "write_readme ev s3 = Done s4" "make_zip ev s4 = Done s"
    by (auto simp: create_package_Done)
  have keep: "isdir (root s1) q \<Longrightarrow> isdir (root s) q" for q
    using st copy_files_isdir [of ev copies s1 q] copy_qrcodes_isdir [of ev s2 q]
      write_readme_isdir [of ev s3 q] make_zip_isdir [of ev s4 q]
    by simp
  from make_dirs_Done [OF st(1)] keep
  show "isdir (root s) package_dir" and "\<forall>d\<in>set dirs. isdir (root s) (package_dir @ [d])"
    by blast+
qed

lemma run_isdir:
  assumes "create_package ev t = Done s" and "\<forall>d\<in>set dirs. \<not> prefix q (package_dir @ [d])"
  shows "isdir (root s) q = isdir t q"
proof -
  from assms(1) obtain s1 s2 s3 s4 where st: "make_dirs ev \<lparr>root = t, out = []\<rparr> = Done s1"
    "copy_files ev copies s1 = Done s2" "copy_qrcodes ev s2 = Done s3"
    "write_readme ev s3 = Done s4" "make_zip ev s4 = Done s"
    by (auto simp: create_package_Done)
  from make_dirs_other [OF assms(2), of ev "\<lparr>root = t, out = []\<rparr>"] st(1)
  have "isdir (root s1) q = isdir t q" by (simp add: isdir_def)
  with st copy_files_isdir [of ev copies s1 q] copy_qrcodes_isdir [of ev s2 q]
      write_readme_isdir [of ev s3 q] make_zip_isdir [of ev s4 q]
  show ?thesis by simp
qed

lemma run_outside:
  assumes "create_package ev t = Done s"
    and "\<forall>d\<in>set dirs. \<not> prefix q (package_dir @ [d])"
    and "\<forall>d\<in>set (map snd copies). \<not> prefix d q"
    and "\<not> strict_prefix (package_dir @ [''qrcodes'']) q"
    and "q \<noteq> package_dir @ [''README.md'']" and "q \<noteq> zip_path"
  shows "stat (root s) q = stat t q"
proof -
  from assms(1) obtain s1 s2 s3 s4 where st: "make_dirs ev \<lparr>root = t, out = []\<rparr> = Done s1"
    "copy_files ev copies s1 = Done s2" "copy_qrcodes ev s2 = Done s3"
    "write_readme ev s3 = Done s4" "make_zip ev s4 = Done s"
    by (auto simp: create_package_Done)
  from make_dirs_other [OF assms(2), of ev "\<lparr>root = t, out = []\<rparr>"] st(1)
    copy_files_frame [OF assms(3), of ev s1] st(2)
    after_copies_frame [OF st(3,4,5) assms(4,5,6)]
  show ?thesis by simp
qed

lemma strict_prefix_qrcodes:
  "strict_prefix (package_dir @ [''qrcodes'']) q \<Longrightarrow> \<exists>f. prefix (package_dir @ [''qrcodes'', f]) q"
proof -
  assume "strict_prefix (package_dir @ [''qrcodes'']) q"
  then obtain r where q: "q = (package_dir @ [''qrcodes'']) @ r" and "r \<noteq> []"
    by (auto simp: strict_prefix_def prefix_def)
  then obtain f r' where "r = f # r'" by (cases r) auto
  with q have "q = (package_dir @ [''qrcodes'', f]) @ r'" by simp
  then show ?thesis by (metis prefixI)
qed

lemma run_source:
  assumes "create_package ev t = Done s" and "(a, b) \<in> set copies"
  shows "stat (root s) a = stat t a"
proof -
  from assms(2) have "a \<in> set (map fst copies)" by force
  with separate_copies have "\<forall>d\<in>set (map snd copies). \<not> prefix d a"
    by (auto simp: separate_def)
  moreover have "\<not> strict_prefix (package_dir @ [''qrcodes'']) a"
    using strict_prefix_qrcodes [of a] manifest_paths(10) [OF assms(2)] by blast
  ultimately show ?thesis
    using run_outside [OF assms(1), of a] manifest_paths(3,11,12) [OF assms(2)] by blast
qed

lemma run_qr_source:
  assumes "create_package ev t = Done s"
  shows "stat (root s) (qrcodes_dir @ r) = stat t (qrcodes_dir @ r)"
proof -
  have a: "\<not> prefix (qrcodes_dir @ r) (package_dir @ [d])" for d
    by (cases r) (simp_all add: qrcodes_dir_def package_dir_def package_name_def)
  have b: "\<not> prefix d (qrcodes_dir @ r)" if "d \<in> set (map snd copies)" for d
  proof -
    from that obtain a where "(a, d) \<in> set copies" by auto
    from copies_shape [OF this] show ?thesis
      by (auto simp: qrcodes_dir_def package_dir_def package_name_def)
  qed
  have c: "\<not> strict_prefix (package_dir @ [''qrcodes'']) (qrcodes_dir @ r)"
    by (simp add: strict_prefix_def qrcodes_dir_def package_dir_def package_name_def)
  have d: "qrcodes_dir @ r \<noteq> package_dir @ [''README.md'']" "qrcodes_dir @ r \<noteq> zip_path"
    by (simp_all add: qrcodes_dir_def package_dir_def zip_path_def package_name_def)
  from run_outside [OF assms, of "qrcodes_dir @ r"] a b c d show ?thesis by blast
qed

lemma manifest_settled:
  assumes run: "create_package ev t = Done s" and mem: "(a, b) \<in> set copies"
    and ex: "exists (root s) a"
  shows "\<exists>c m. stat (root s) a = Some (IsFile c m)
           \<and> stat (root s) (copy_target (root s) a b) = Some (IsFile c m)
           \<and> a \<noteq> copy_target (root s) a b \<and> \<not> denied ev (copy_target (root s) a b)"
proof -
  from run obtain s1 s2 s3 s4 where st: "make_dirs ev \<lparr>root = t, out = []\<rparr> = Done s1"
    "copy_files ev copies s1 = Done s2" "copy_qrcodes ev s2 = Done s3"
    "write_readme ev s3 = Done s4" "make_zip ev s4 = Done s"
    by (auto simp: create_package_Done)
  from ex run_source [OF run mem] have ext: "exists t a" by (simp add: exists_def)
  from source_exists_after_dirs [OF mem, of ev t] st(1) ext
  have e1: "exists (root s1) a" and same: "stat (root s1) a = stat t a" by (simp_all add: exists_def)
  from copy_files_copied [OF st(2) separate_copies mem e1] same
  obtain c m where src: "stat t a = Some (IsFile c m)" by auto
  note m = manifest_in_place [OF st(1,2) mem src]
  have "\<forall>d\<in>set dirs. \<not> prefix b (package_dir @ [d])" using manifest_paths(2) [OF mem] by blast
  from run_isdir [OF run this] have ct: "copy_target (root s) a b = copy_target t a b"
    by (simp add: copy_target_def)
  from after_copies_frame [OF st(3,4,5) manifest_paths(4,6,8) [OF mem, where t = t]] m(1)
  have "stat (root s) (copy_target t a b) = Some (IsFile c m)" by simp
  with ct m(2,3) src run_source [OF run mem] show ?thesis by simp
qed

lemma copy_qrcodes_settled:
  assumes cq: "copy_qrcodes ev s = Done s'" and ex: "exists (root s) (qrcodes_dir @ [f])"
    and png: "endswith f ''.png''"
  shows "\<exists>c m. stat (root s) (qrcodes_dir @ [f]) = Some (IsFile c m)
           \<and> stat (root s') (copy_target (root s) (qrcodes_dir @ [f]) (package_dir @ [''qrcodes'', f]))
               = Some (IsFile c m)
           \<and> \<not> denied ev (copy_target (root s) (qrcodes_dir @ [f]) (package_dir @ [''qrcodes'', f]))"
proof -
  from ex obtain e where "stat (root s) (qrcodes_dir @ f # []) = Some e" by (auto simp: exists_def)
  from stat_above_dir [OF this] have exq: "exists (root s) qrcodes_dir" by (simp add: exists_def)
  with cq obtain files where ls: "listdir (root s) qrcodes_dir = Inr files"
    and run: "copy_qr_files ev files s = Done s'"
    by (auto simp: copy_qrcodes_def split: sum.splits)
  from listdir_Inr [OF ls] ex have d: "distinct files" and mem: "f \<in> set files"
    by (auto simp: exists_def)
  from copy_qr_files_copied [OF run d mem png] show ?thesis .
qed

lemma qr_settled:
  assumes run: "create_package ev t = Done s"
  shows "exists (root s) qrcodes_dir \<longrightarrow> isdir (root s) qrcodes_dir"
    and "\<forall>f. exists (root s) (qrcodes_dir @ [f]) \<longrightarrow> endswith f ''.png'' \<longrightarrow>
             (\<exists>c m. stat (root s) (qrcodes_dir @ [f]) = Some (IsFile c m)
                \<and> stat (root s) (copy_target (root s) (qrcodes_dir @ [f]) (package_dir @ [''qrcodes'', f]))
                    = Some (IsFile c m)
                \<and> \<not> denied ev (copy_target (root s) (qrcodes_dir @ [f]) (package_dir @ [''qrcodes'', f])))"
proof -
  from run obtain s1 s2 s3 s4 where st: "make_dirs ev \<lparr>root = t, out = []\<rparr> = Done s1"
    "copy_files ev copies s1 = Done s2" "copy_qrcodes ev s2 = Done s3"
    "write_readme ev s3 = Done s4" "make_zip ev s4 = Done s"
    by (auto simp: create_package_Done)
  have later: "stat (root s) q = stat (root s2) q"
    if "\<not> strict_prefix (package_dir @ [''qrcodes'']) q" "q \<noteq> package_dir @ [''README.md'']" "q \<noteq> zip_path"
    for q using after_copies_frame [OF st(3,4,5) that] .
  have q2: "stat (root s) (qrcodes_dir @ r) = stat (root s2) (qrcodes_dir @ r)" for r
    by (rule later)
      (simp_all add: strict_prefix_def qrcodes_dir_def package_dir_def zip_path_def package_name_def)
  show "exists (root s) qrcodes_dir \<longrightarrow> isdir (root s) qrcodes_dir"
  proof
    assume "exists (root s) qrcodes_dir"
    with q2 [of "[]"] have "exists (root s2) qrcodes_dir" by (simp add: exists_def)
    with st(3) obtain fs where "listdir (root s2) qrcodes_dir = Inr fs"
      by (auto simp: copy_qrcodes_def split: sum.splits)
    from listdir_Inr(3) [OF this] q2 [of "[]"] show "isdir (root s) qrcodes_dir"
      by (simp add: isdir_def)
  qed
  show "\<forall>f. exists (root s) (qrcodes_dir @ [f]) \<longrightarrow> endswith f ''.png'' \<longrightarrow>
             (\<exists>c m. stat (root s) (qrcodes_dir @ [f]) = Some (IsFile c m)
                \<and> stat (root s) (copy_target (root s) (qrcodes_dir @ [f]) (package_dir @ [''qrcodes'', f]))
                    = Some (IsFile c m)
                \<and> \<not> denied ev (copy_target (root s) (qrcodes_dir @ [f]) (package_dir @ [''qrcodes'', f])))"
  proof (intro allI impI)
    fix f assume ex: "exists (root s) (qrcodes_dir @ [f])" and png: "endswith f ''.png''"
    let ?src = "qrcodes_dir @ [f]" and ?dst = "package_dir @ [''qrcodes'', f]"
    from ex q2 [of "[f]"] have "exists (root s2) ?src" by (simp add: exists_def)
    from copy_qrcodes_settled [OF st(3) this png] obtain c m
      where c: "stat (root s2) ?src = Some (IsFile c m)"
        "stat (root s3) (copy_target (root s2) ?src ?dst) = Some (IsFile c m)"
        "\<not> denied ev (copy_target (root s2) ?src ?dst)" by blast
    have "isdir (root s) ?dst = isdir (root s2) ?dst"
      using st copy_qrcodes_isdir [of ev s2 ?dst] write_readme_isdir [of ev s3 ?dst]
        make_zip_isdir [of ev s4 ?dst] by simp
    then have ct: "copy_target (root s) ?src ?dst = copy_target (root s2) ?src ?dst"
      by (simp add: copy_target_def)
    from c(2) write_readme_frame [OF qr_paths(9), of ev s3 "root s2" ?src f] st(4)
      make_zip_frame [OF qr_paths(10), of ev s4 "root s2" ?src f] st(5)
    have "stat (root s) (copy_target (root s2) ?src ?dst) = Some (IsFile c m)" by simp
    with c ct q2 [of "[f]"]
    show "\<exists>c m. stat (root s) ?src = Some (IsFile c m)
                \<and> stat (root s) (copy_target (root s) ?src ?dst) = Some (IsFile c m)
                \<and> \<not> denied ev (copy_target (root s) ?src ?dst)"
      by simp
  qed
qed

lemma readme_settled:
  assumes "create_package ev t = Done s"
  shows "stat (root s) (package_dir @ [''README.md'']) = Some (IsFile (Bytes readme_content) (stamp ev))"
    and "\<not> denied ev (package_dir @ [''README.md''])"
proof -
  from assms obtain s3 s4 where st: "write_readme ev s3 = Done s4" "make_zip ev s4 = Done s"
    by (auto simp: create_package_Done)
  from write_readme_Done(1) [OF st(1)] make_zip_frame [OF readme_paths(2), of ev s4] st(2)
  show "stat (root s) (package_dir @ [''README.md'']) = Some (IsFile (Bytes readme_content) (stamp ev))"
    by simp
  from write_readme_Done(3) [OF st(1)] show "\<not> denied ev (package_dir @ [''README.md''])" .
qed

lemma archive_settled:
  assumes "create_package ev t = Done s"
  shows "\<exists>n. lookup (root s) package_dir = Some n
           \<and> stat (root s) zip_path = Some (IsFile (Zip (walk [package_name] n)) (stamp ev))"
    and "\<not> denied ev zip_path"
proof -
  from assms obtain s4 where z: "make_zip ev s4 = Done s"
    by (auto simp: create_package_Done)
  from make_zip_Done(1) [OF z] show "\<exists>n. lookup (root s) package_dir = Some n
           \<and> stat (root s) zip_path = Some (IsFile (Zip (walk [package_name] n)) (stamp ev))"
    by auto
  from make_zip_Done(3) [OF z] show "\<not> denied ev zip_path" .
qed

lemma second_run_before_archive:
  assumes run: "create_package ev t = Done s1"
  shows "make_dirs ev' \<lparr>root = root s1, out = ls\<rparr> = Done \<lparr>root = root s1, out = ls\<rparr>"
    and "root u1 = root s1 \<Longrightarrow> root (final (copy_files ev' copies u1)) = root s1"
    and "root u2 = root s1 \<Longrightarrow> root (final (copy_qrcodes ev' u2)) = root s1"
proof -
  from dirs_in_place [OF run]
  show "make_dirs ev' \<lparr>root = root s1, out = ls\<rparr> = Done \<lparr>root = root s1, out = ls\<rparr>"
    by (simp add: make_dirs_idem)
  assume u1: "root u1 = root s1"
  have "\<forall>(a, b)\<in>set copies. exists (root u1) a \<longrightarrow>
             stat (root u1) (copy_target (root u1) a b) = stat (root u1) a"
    using manifest_settled [OF run] u1 by fastforce
  from copy_files_same_root [OF this] u1
  show "root (final (copy_files ev' copies u1)) = root s1" by simp
next
  assume u2: "root u2 = root s1"
  have "\<forall>f. exists (root u2) (qrcodes_dir @ [f]) \<longrightarrow> endswith f ''.png'' \<longrightarrow>
             stat (root u2) (copy_target (root u2) (qrcodes_dir @ [f]) (package_dir @ [''qrcodes'', f]))
               = stat (root u2) (qrcodes_dir @ [f])"
    using qr_settled(2) [OF run] u2 by fastforce
  from copy_qrcodes_same_root [OF this] u2
  show "root (final (copy_qrcodes ev' u2)) = root s1" by simp
qed

text \<open>
  The equations that evaluate a run of the script on a given file system.
\<close>

lemmas run_defs =
  create_package_def make_dirs_def copy_qrcodes_def write_readme_def make_zip_def make_archive_def
  copy2_def copy_target_def write_file_def open_w_def mkdir_def listdir_def stat_def exists_def
  isdir_def dirname_def basename_def endswith_def splitext_root_def zip_path_def package_dir_def
  qrcodes_dir_def base_dir_def package_name_def copies_def dirs_def makedirs.simps
  suffix_to_prefix Let_def

section \<open>The claims\<close>

subsection \<open>C1: the manifest copies\<close>

text \<open>
  C1 says that for every manifest entry whose source file exists, after
  \<^verbatim>\<open>create_package()\<close> returns the destination file exists with the bytes and the
  metadata of the source, whatever was there before. That fails when the destination path
  is already a directory: \<^verbatim>\<open>shutil.copy2\<close> then puts the copy inside it, the run
  returns, and the destination path is still a directory. In \<open>blocked_tree\<close> the
  destination of the teacher guide is such a directory.
\<close>

theorem destination_directory_kept:
  "(base_dir @ [''teacher_guide_microbit_1st_grade.md''],
    package_dir @ [''guides'', ''teacher_guide_microbit_1st_grade.md'']) \<in> set copies
   \<and> stat blocked_tree (base_dir @ [''teacher_guide_microbit_1st_grade.md''])
       = Some (IsFile (Bytes ''guide'') 1)
   \<and> raised (create_package plain_env blocked_tree) = None
   \<and> stat (root (final (create_package plain_env blocked_tree)))
        (package_dir @ [''guides'', ''teacher_guide_microbit_1st_grade.md''])
       = Some IsDir
   \<and> stat (root (final (create_package plain_env blocked_tree)))
        (package_dir @ [''guides'', ''teacher_guide_microbit_1st_grade.md'',
                        ''teacher_guide_microbit_1st_grade.md''])
       = Some (IsFile (Bytes ''guide'') 1)"
  by code_simp

text \<open>
  C1, amended: for every manifest entry whose source is a file, after a run that returns,
  if the destination path was not a directory it is a file with the content and the metadata
  of the source, whatever it was before; if it was a directory it still is, and the file
  named after the source inside it has the content and the metadata of the source.
\<close>

theorem manifest_entry_copied:
  assumes "create_package ev t = Done s" and "(src, dst) \<in> set copies"
    and "stat t src = Some (IsFile c m)"
  shows "(\<not> isdir t dst \<longrightarrow> stat (root s) dst = Some (IsFile c m))
       \<and> (isdir t dst \<longrightarrow> stat (root s) dst = Some IsDir
                            \<and> stat (root s) (dst @ [basename src]) = Some (IsFile c m))"
proof -
  from assms(1) obtain s1 s2 s3 s4 where st: "make_dirs ev \<lparr>root = t, out = []\<rparr> = Done s1"
    "copy_files ev copies s1 = Done s2" "copy_qrcodes ev s2 = Done s3"
    "write_readme ev s3 = Done s4" "make_zip ev s4 = Done s"
    by (auto simp: create_package_Done)
  have "isdir t dst \<Longrightarrow> isdir (root s) dst"
    using make_dirs_isdir_keeps [of "\<lparr>root = t, out = []\<rparr>" dst ev] st
      copy_files_isdir [of ev copies s1 dst] copy_qrcodes_isdir [of ev s2 dst]
      write_readme_isdir [of ev s3 dst] make_zip_isdir [of ev s4 dst]
    by simp
  with manifest_copied_aux [OF assms] show ?thesis
    by (auto simp: copy_target_def isdir_def)
qed

theorem manifest_entry_copied_witness:
  "create_package plain_env example_tree = Done (final (create_package plain_env example_tree))
   \<and> create_package plain_env blocked_tree = Done (final (create_package plain_env blocked_tree))
   \<and> (base_dir @ [''teacher_guide_microbit_1st_grade.md''],
       package_dir @ [''guides'', ''teacher_guide_microbit_1st_grade.md'']) \<in> set copies
   \<and> stat example_tree (base_dir @ [''teacher_guide_microbit_1st_grade.md''])
       = Some (IsFile (Bytes ''guide'') 1)
   \<and> stat blocked_tree (base_dir @ [''teacher_guide_microbit_1st_grade.md''])
       = Some (IsFile (Bytes ''guide'') 1)
   \<and> \<not> isdir example_tree (package_dir @ [''guides'', ''teacher_guide_microbit_1st_grade.md''])
   \<and> isdir blocked_tree (package_dir @ [''guides'', ''teacher_guide_microbit_1st_grade.md''])
   \<and> stat (root (final (create_package plain_env example_tree)))
        (package_dir @ [''guides'', ''teacher_guide_microbit_1st_grade.md''])
       = Some (IsFile (Bytes ''guide'') 1)
   \<and> stat (root (final (create_package plain_env blocked_tree)))
        (package_dir @ [''guides'', ''teacher_guide_microbit_1st_grade.md'']
           @ [basename (base_dir @ [''teacher_guide_microbit_1st_grade.md''])])
       = Some (IsFile (Bytes ''guide'') 1)"
proof -
  have run: "create_package plain_env example_tree
               = Done (final (create_package plain_env example_tree))"
    by (rule finished) code_simp
  have run': "create_package plain_env blocked_tree
               = Done (final (create_package plain_env blocked_tree))"
    by (rule finished) code_simp
  have mem: "(base_dir @ [''teacher_guide_microbit_1st_grade.md''],
       package_dir @ [''guides'', ''teacher_guide_microbit_1st_grade.md'']) \<in> set copies"
    by (simp add: copies_def)
  have src: "stat example_tree (base_dir @ [''teacher_guide_microbit_1st_grade.md''])
       = Some (IsFile (Bytes ''guide'') 1)"
    by code_simp
  have src': "stat blocked_tree (base_dir @ [''teacher_guide_microbit_1st_grade.md''])
       = Some (IsFile (Bytes ''guide'') 1)"
    by code_simp
  have nd: "\<not> isdir example_tree (package_dir @ [''guides'', ''teacher_guide_microbit_1st_grade.md''])"
    by code_simp
  have d: "isdir blocked_tree (package_dir @ [''guides'', ''teacher_guide_microbit_1st_grade.md''])"
    by code_simp
  from manifest_entry_copied [OF run mem src] manifest_entry_copied [OF run' mem src']
    run run' mem src src' nd d
  show ?thesis by simp
qed

subsection \<open>C2: the archive\<close>

text \<open>
  C2: the ZIP written at \<^verbatim>\<open><base>/<package_name>.zip\<close>, when unpacked into an
  empty directory by an environment that refuses nothing, gives the directory
  \<^verbatim>\<open><package_name>\<close> and nothing beside it, and below it exactly the names,
  kinds and bytes of the package directory as the run leaves it (the archive is written last
  and lies outside the package directory). Whatever was stored at the path of the archive
  before the run, these are its members after it.
\<close>

theorem archive_round_trip:
  assumes "create_package ev t = Done s" and "\<forall>q. \<not> denied ev' q"
  shows "\<exists>ms x. members (root s) zip_path = Some ms
           \<and> extractall ev' (Dir []) ms [] = Done x
           \<and> (\<forall>r. view x (package_name # r) = view (root s) (package_dir @ r))
           \<and> (\<forall>y r. y \<noteq> package_name \<longrightarrow> stat x (y # r) = None)"
proof -
  from assms(1) obtain s4 where z: "make_zip ev s4 = Done s"
    by (auto simp: create_package_Done)
  from make_zip_Done(1) [OF z] obtain n where n: "lookup (root s) package_dir = Some n"
    and st: "stat (root s) zip_path = Some (IsFile (Zip (walk [package_name] n)) (stamp ev))"
    by auto
  from assms(2) have nd: "\<And>q. \<not> denied ev' q" by simp
  have "\<exists>x. foldl (extract_member ev' []) (Done (Dir [])) (walk [package_name] n) = Done x
          \<and> (\<forall>q. \<not> prefix [package_name] q \<longrightarrow> stat x q = stat (Dir []) q)
          \<and> (\<forall>r. view x ([package_name] @ r) = view n r)"
    using extract_walk(1) [OF nd, of "[package_name]" n, THEN spec, of "Dir []"]
    by (simp add: stat_Dir_Cons del: walk.simps)
  then obtain x where run: "foldl (extract_member ev' []) (Done (Dir [])) (walk [package_name] n) = Done x"
    and fr: "\<forall>q. \<not> prefix [package_name] q \<longrightarrow> stat x q = stat (Dir []) q"
    and vw: "\<forall>r. view x ([package_name] @ r) = view n r"
    by blast
  have "view x (package_name # r) = view (root s) (package_dir @ r)" for r
    using vw n by (simp add: view_append)
  moreover have "stat x (y # r) = None" if "y \<noteq> package_name" for y r
  proof -
    from that have "\<not> prefix [package_name] (y # r)" by simp
    with fr show ?thesis by (simp add: stat_Dir_Cons)
  qed
  ultimately show ?thesis using run members_zip [OF st]
    by (auto simp: extractall_def)
qed

theorem archive_round_trip_witness:
  "create_package plain_env example_tree = Done (final (create_package plain_env example_tree))
   \<and> members (root (final (create_package plain_env example_tree))) zip_path
       = Some (the (members (root (final (create_package plain_env example_tree))) zip_path))
   \<and> view (final (extractall plain_env (Dir [])
        (the (members (root (final (create_package plain_env example_tree))) zip_path)) []))
        [package_name, ''qrcodes'', ''qr_a.png'']
       = Some (Some (Bytes ''png''))"
proof -
  have run: "create_package plain_env example_tree
               = Done (final (create_package plain_env example_tree))"
    by (rule finished) code_simp
  have nd: "\<forall>q. \<not> denied plain_env q"
    by (simp add: plain_env_def)
  have v: "view (root (final (create_package plain_env example_tree))) (package_dir @ [''qrcodes'', ''qr_a.png''])
             = Some (Some (Bytes ''png''))"
    by code_simp
  from archive_round_trip [OF run nd] v run show ?thesis by auto
qed

subsection \<open>C3: missing sources\<close>

text \<open>
  C3: for every manifest entry whose source is absent, a missing source does not make the
  run raise, the destination is not created and exactly one \<^verbatim>\<open>Not found\<close> line is
  printed for the entry. In the model: in a run that returns, the console holds the line for
  that source exactly once and the destination path is what it was before the run; and
  whenever the loop over the manifest raises, the exception is the one
  \<^verbatim>\<open>shutil.copy2\<close> raised for another entry, whose source exists.
\<close>

theorem missing_source_skipped:
  assumes "(src, dst) \<in> set copies" and "\<not> exists t src"
  shows "(\<forall>s. create_package ev t = Done s \<longrightarrow>
            count_list (out s) (NotFound src) = 1 \<and> stat (root s) dst = stat t dst)
       \<and> (\<forall>s1 e s'. make_dirs ev \<lparr>root = t, out = []\<rparr> = Done s1 \<longrightarrow>
            copy_files ev copies s1 = Raised e s' \<longrightarrow>
            (\<exists>a b. (a, b) \<in> set copies \<and> a \<noteq> src \<and> exists (root s') a
                   \<and> copy2 ev (root s') a b = Inl e))"
proof (intro conjI allI impI)
  fix s assume run: "create_package ev t = Done s"
  then obtain s1 s2 s3 s4 where st: "make_dirs ev \<lparr>root = t, out = []\<rparr> = Done s1"
    "copy_files ev copies s1 = Done s2" "copy_qrcodes ev s2 = Done s3"
    "write_readme ev s3 = Done s4" "make_zip ev s4 = Done s"
    by (auto simp: create_package_Done)
  from source_exists_after_dirs [OF assms(1), of ev t] st(1) assms(2)
  have ne: "\<not> exists (root s1) src" by (simp add: exists_def)
  from make_dirs_out [of ev "\<lparr>root = t, out = []\<rparr>"] st(1) have "out s1 = []" by simp
  with copy_files_out [OF st(2) separate_copies]
  have o2: "out s2 = map (\<lambda>(a, b). if exists (root s1) a then Copied (basename a) else NotFound a) copies"
    by simp
  from copy_qrcodes_out [OF st(3)] obtain fs where o3: "out s3 = out s2 @ map CopiedQR fs" ..
  have "count_list (map CopiedQR fs) (NotFound src) = 0" by (induction fs) auto
  with o2 o3 write_readme_Done(2) [OF st(4)] make_zip_Done(2) [OF st(5)]
    count_not_found [OF distinct_sources assms(1), where ex = "exists (root s1)", OF ne]
  show "count_list (out s) (NotFound src) = 1" by simp
  have "\<forall>(a, b)\<in>set copies. exists (root s1) a \<longrightarrow> \<not> prefix b dst"
  proof clarify
    fix a b assume m: "(a, b) \<in> set copies" and e: "exists (root s1) a" and p: "prefix b dst"
    from m assms(1) have "b \<in> set (map snd copies)" "dst \<in> set (map snd copies)" by force+
    with separate_copies p have "b = dst" by (auto simp: separate_def)
    with m assms(1) separate_copies have "a = src"
      using same_destination [of copies a dst src] by (simp add: separate_def)
    with e ne show False by simp
  qed
  from copy_files_frame_missing [OF separate_copies this, of ev] st(2)
  have "stat (root s2) dst = stat (root s1) dst" by simp
  also have "\<dots> = stat t dst"
    using make_dirs_other [of dst ev "\<lparr>root = t, out = []\<rparr>"] manifest_paths(2) [OF assms(1)] st(1)
    by simp
  finally show "stat (root s) dst = stat t dst"
    using after_copies_frame [OF st(3,4,5) manifest_paths(5,7,9) [OF assms(1)]] by simp
next
  fix s1 e s'
  assume md: "make_dirs ev \<lparr>root = t, out = []\<rparr> = Done s1" and cf: "copy_files ev copies s1 = Raised e s'"
  from copy_files_Raised [OF cf] obtain a b where ab: "(a, b) \<in> set copies" "exists (root s') a"
    "copy2 ev (root s') a b = Inl e" by blast
  from assms(1) have "src \<in> set (map fst copies)" by force
  with separate_copies have "\<forall>d\<in>set (map snd copies). \<not> prefix d src"
    by (auto simp: separate_def)
  from copy_files_frame [OF this, of ev s1] cf source_exists_after_dirs [OF assms(1), of ev t] md assms(2)
  have "\<not> exists (root s') src" by (simp add: exists_def)
  with ab show "\<exists>a b. (a, b) \<in> set copies \<and> a \<noteq> src \<and> exists (root s') a \<and> copy2 ev (root s') a b = Inl e"
    by blast
qed

theorem missing_source_skipped_witness:
  "(base_dir @ [''teacher_guide_microbit_1st_grade.pdf''],
    package_dir @ [''guides'', ''teacher_guide_microbit_1st_grade.pdf'']) \<in> set copies
   \<and> \<not> exists example_tree (base_dir @ [''teacher_guide_microbit_1st_grade.pdf''])
   \<and> create_package plain_env example_tree = Done (final (create_package plain_env example_tree))
   \<and> count_list (out (final (create_package plain_env example_tree)))
        (NotFound (base_dir @ [''teacher_guide_microbit_1st_grade.pdf''])) = 1
   \<and> stat (root (final (create_package plain_env example_tree)))
        (package_dir @ [''guides'', ''teacher_guide_microbit_1st_grade.pdf'']) = None"
proof -
  have mem: "(base_dir @ [''teacher_guide_microbit_1st_grade.pdf''],
    package_dir @ [''guides'', ''teacher_guide_microbit_1st_grade.pdf'']) \<in> set copies"
    by (simp add: copies_def)
  have ne: "\<not> exists example_tree (base_dir @ [''teacher_guide_microbit_1st_grade.pdf''])"
    by code_simp
  have run: "create_package plain_env example_tree
               = Done (final (create_package plain_env example_tree))"
    by (rule finished) code_simp
  have before: "stat example_tree (package_dir @ [''guides'', ''teacher_guide_microbit_1st_grade.pdf'']) = None"
    by code_simp
  from missing_source_skipped [OF mem ne, of plain_env] run mem ne before show ?thesis by auto
qed

subsection \<open>C4: the package directories\<close>

text \<open>
  C4: after any run that returns, the package root and its five subdirectories exist,
  whichever manifest sources were present; creating them is idempotent: when they all exist
  already the first stage returns and leaves the file system as it is, even if every write is
  refused.
\<close>

theorem package_directories_exist:
  "(create_package ev t = Done s \<longrightarrow>
      isdir (root s) package_dir \<and> (\<forall>d\<in>set dirs. isdir (root s) (package_dir @ [d])))
   \<and> (isdir t package_dir \<and> (\<forall>d\<in>set dirs. isdir t (package_dir @ [d])) \<longrightarrow>
      make_dirs ev \<lparr>root = t, out = lines\<rparr> = Done \<lparr>root = t, out = lines\<rparr>)"
  using dirs_in_place [of ev t s] by (simp add: make_dirs_idem)

theorem package_directories_exist_witness:
  "create_package plain_env example_tree = Done (final (create_package plain_env example_tree))
   \<and> isdir (root (final (create_package plain_env example_tree))) package_dir
   \<and> isdir (root (final (create_package plain_env example_tree))) (package_dir @ [''guides''])
   \<and> isdir (root (final (create_package plain_env example_tree))) (package_dir @ [''worksheets''])
   \<and> isdir (root (final (create_package plain_env example_tree))) (package_dir @ [''templates''])
   \<and> isdir (root (final (create_package plain_env example_tree))) (package_dir @ [''qrcodes''])
   \<and> isdir (root (final (create_package plain_env example_tree))) (package_dir @ [''resources''])
   \<and> make_dirs locked_env \<lparr>root = root (final (create_package plain_env example_tree)), out = []\<rparr>
       = Done \<lparr>root = root (final (create_package plain_env example_tree)), out = []\<rparr>"
proof -
  have run: "create_package plain_env example_tree
               = Done (final (create_package plain_env example_tree))"
    by (rule finished) code_simp
  from package_directories_exist [of plain_env example_tree "final (create_package plain_env example_tree)"] run
  have d: "isdir (root (final (create_package plain_env example_tree))) package_dir
      \<and> (\<forall>d\<in>set dirs. isdir (root (final (create_package plain_env example_tree))) (package_dir @ [d]))"
    by blast
  with package_directories_exist [of locked_env "root (final (create_package plain_env example_tree))" _ "[]"]
  have "make_dirs locked_env \<lparr>root = root (final (create_package plain_env example_tree)), out = []\<rparr>
       = Done \<lparr>root = root (final (create_package plain_env example_tree)), out = []\<rparr>"
    by blast
  with run d show ?thesis by (simp add: dirs_def)
qed

subsection \<open>C5: running twice\<close>

text \<open>
  C5: when \<^verbatim>\<open>create_package()\<close> has returned and is run again on the file system
  it left, at any later time and whatever writes are refused then: if the second run returns,
  the archive it writes has the same members, with the same data and in the same order, as the
  archive of the first run; and if the second run raises in one of the four stages that come
  before the archive is written (as it does when a copy has taken over a read-only mode from
  its source and cannot be written again), the run ends there and the archive of the first
  run is still at its path, untouched. Nothing is stated of a second run that raises while it
  rewrites the archive.
\<close>

theorem second_run_same_archive:
  assumes run: "create_package ev t = Done s1"
  shows "(create_package ev' (root s1) = Done s2 \<longrightarrow>
            (\<exists>ms. members (root s1) zip_path = Some ms \<and> members (root s2) zip_path = Some ms))
       \<and> (make_dirs ev' \<lparr>root = root s1, out = []\<rparr> = Raised e s
          \<or> (\<exists>u1. make_dirs ev' \<lparr>root = root s1, out = []\<rparr> = Done u1 \<and>
                (copy_files ev' copies u1 = Raised e s
               \<or> (\<exists>u2. copy_files ev' copies u1 = Done u2 \<and>
                     (copy_qrcodes ev' u2 = Raised e s
                    \<or> (\<exists>u3. copy_qrcodes ev' u2 = Done u3 \<and> write_readme ev' u3 = Raised e s)))))
          \<longrightarrow> create_package ev' (root s1) = Raised e s
              \<and> stat (root s) zip_path = stat (root s1) zip_path)"
proof (intro conjI impI)
  let ?R = "root s1"
  let ?readme = "package_dir @ [''README.md'']"
  let ?F = "File (Bytes readme_content) (stamp ev')"
  assume "create_package ev' ?R = Done s2"
  then obtain u1 u2 u3 u4 where st: "make_dirs ev' \<lparr>root = ?R, out = []\<rparr> = Done u1"
    "copy_files ev' copies u1 = Done u2" "copy_qrcodes ev' u2 = Done u3"
    "write_readme ev' u3 = Done u4" "make_zip ev' u4 = Done s2"
    by (auto simp: create_package_Done)
  from second_run_before_archive(1) [OF run, of ev' "[]"] st(1) have r1: "root u1 = ?R" by auto
  from second_run_before_archive(2) [OF run r1, of ev'] st(2) have r2: "root u2 = ?R" by simp
  from second_run_before_archive(3) [OF run r2, of ev'] st(3) have r3: "root u3 = ?R" by simp
  from st(4) r3 have r4: "root u4 = put ?R ?readme ?F"
    by (auto simp: write_readme_def write_file_def split: sum.splits option.splits)
  note rm = readme_settled [OF run]
  from archive_settled [OF run] obtain n1 where n1: "lookup ?R package_dir = Some n1"
    and z1: "stat ?R zip_path = Some (IsFile (Zip (walk [package_name] n1)) (stamp ev))"
    by blast
  from make_zip_Done(1) [OF st(5)] r4 obtain n2 where n2: "lookup (put ?R ?readme ?F) package_dir = Some n2"
    and z2: "stat (root s2) zip_path = Some (IsFile (Zip (walk [package_name] n2)) (stamp ev'))"
    by auto
  from lookup_put_below [OF n1, of "[''README.md'']" ?F] n2
  have "n2 = put n1 [''README.md''] ?F" by simp
  moreover from lookup_file [OF rm(1)] n1
  have "lookup n1 [''README.md''] = Some (File (Bytes readme_content) (stamp ev))"
    by (simp add: lookup_append)
  ultimately have "walk [package_name] n2 = walk [package_name] n1"
    by (simp only: walk_put_meta)
  with z1 z2 show "\<exists>ms. members ?R zip_path = Some ms \<and> members (root s2) zip_path = Some ms"
    by (auto simp: members_def)
next
  let ?R = "root s1"
  assume h: "make_dirs ev' \<lparr>root = ?R, out = []\<rparr> = Raised e s
          \<or> (\<exists>u1. make_dirs ev' \<lparr>root = ?R, out = []\<rparr> = Done u1 \<and>
                (copy_files ev' copies u1 = Raised e s
               \<or> (\<exists>u2. copy_files ev' copies u1 = Done u2 \<and>
                     (copy_qrcodes ev' u2 = Raised e s
                    \<or> (\<exists>u3. copy_qrcodes ev' u2 = Done u3 \<and> write_readme ev' u3 = Raised e s)))))"
  then show "create_package ev' ?R = Raised e s"
    by (auto simp: create_package_Raised)
  let ?u = "\<lparr>root = ?R, out = []\<rparr>"
  have md: "make_dirs ev' ?u = Done ?u"
    by (rule second_run_before_archive(1) [OF run])
  have ru: "root ?u = ?R" by simp
  from h md consider
      "copy_files ev' copies ?u = Raised e s"
    | u2 where "copy_files ev' copies ?u = Done u2" "copy_qrcodes ev' u2 = Raised e s"
    | u2 u3 where "copy_files ev' copies ?u = Done u2" "copy_qrcodes ev' u2 = Done u3"
        "write_readme ev' u3 = Raised e s"
    by auto
  then have "root s = ?R"
  proof cases
    case 1
    with second_run_before_archive(2) [OF run ru, of ev'] show ?thesis by simp
  next
    case 2
    with second_run_before_archive(2) [OF run ru, of ev'] have "root u2 = ?R" by simp
    with second_run_before_archive(3) [OF run this, of ev'] 2 show ?thesis by simp
  next
    case 3
    with second_run_before_archive(2) [OF run ru, of ev'] have "root u2 = ?R" by simp
    with second_run_before_archive(3) [OF run this, of ev'] 3 have "root u3 = ?R" by simp
    with write_readme_Raised [OF 3(3)] show ?thesis by simp
  qed
  then show "stat (root s) zip_path = stat ?R zip_path" by simp
qed

theorem second_run_same_archive_witness:
  "create_package plain_env example_tree = Done (final (create_package plain_env example_tree))
   \<and> root (final (create_package plain_env example_tree)) = packaged_tree
   \<and> create_package late_env packaged_tree = Done (final (create_package late_env packaged_tree))
   \<and> members (root (final (create_package late_env packaged_tree))) zip_path
       = members packaged_tree zip_path
   \<and> members packaged_tree zip_path \<noteq> None
   \<and> make_dirs copied_mode_env \<lparr>root = packaged_tree, out = []\<rparr>
       = Done \<lparr>root = packaged_tree, out = []\<rparr>
   \<and> copy_files copied_mode_env copies \<lparr>root = packaged_tree, out = []\<rparr>
       = Raised PermissionError \<lparr>root = packaged_tree, out = []\<rparr>
   \<and> create_package copied_mode_env packaged_tree
       = Raised PermissionError \<lparr>root = packaged_tree, out = []\<rparr>"
proof -
  have run: "create_package plain_env example_tree
               = Done (final (create_package plain_env example_tree))"
    by (rule finished) code_simp
  have left: "root (final (create_package plain_env example_tree)) = packaged_tree"
    by code_simp
  have again: "create_package late_env packaged_tree
               = Done (final (create_package late_env packaged_tree))"
    by (rule finished) (simp add: run_defs packaged_tree_def late_env_def)
  have md: "make_dirs copied_mode_env \<lparr>root = packaged_tree, out = []\<rparr>
              = Done \<lparr>root = packaged_tree, out = []\<rparr>"
    by (simp add: run_defs packaged_tree_def copied_mode_env_def)
  have cf: "copy_files copied_mode_env copies \<lparr>root = packaged_tree, out = []\<rparr>
              = Raised PermissionError \<lparr>root = packaged_tree, out = []\<rparr>"
    by (simp add: run_defs packaged_tree_def copied_mode_env_def)
  note inst = second_run_same_archive [OF run, unfolded left]
  from inst [of late_env, THEN conjunct1, rule_format, OF again]
  have same: "members (root (final (create_package late_env packaged_tree))) zip_path
       = members packaged_tree zip_path"
    and some: "members packaged_tree zip_path \<noteq> None"
    by auto
  from md cf have "make_dirs copied_mode_env \<lparr>root = packaged_tree, out = []\<rparr>
         = Raised PermissionError \<lparr>root = packaged_tree, out = []\<rparr>
          \<or> (\<exists>u1. make_dirs copied_mode_env \<lparr>root = packaged_tree, out = []\<rparr> = Done u1 \<and>
                (copy_files copied_mode_env copies u1 = Raised PermissionError \<lparr>root = packaged_tree, out = []\<rparr>
               \<or> (\<exists>u2. copy_files copied_mode_env copies u1 = Done u2 \<and>
                     (copy_qrcodes copied_mode_env u2 = Raised PermissionError \<lparr>root = packaged_tree, out = []\<rparr>
                    \<or> (\<exists>u3. copy_qrcodes copied_mode_env u2 = Done u3
                          \<and> write_readme copied_mode_env u3
                              = Raised PermissionError \<lparr>root = packaged_tree, out = []\<rparr>)))))"
    by simp
  from inst [of copied_mode_env _ PermissionError "\<lparr>root = packaged_tree, out = []\<rparr>",
      THEN conjunct2, rule_format, OF this]
  have "create_package copied_mode_env packaged_tree
       = Raised PermissionError \<lparr>root = packaged_tree, out = []\<rparr>"
    by simp
  with run left again same some md cf show ?thesis by simp
qed

subsection \<open>C6: the QR images\<close>




subsection \<open>C7: failures\<close>



subsection \<open>C8: an absent QR directory\<close>

text \<open>
  C8 says that an absent QR source directory is logged and skipped. It is skipped, but
  nothing is logged: the check of line 47 has no other branch. On the empty file system the
  QR stage returns the state it was given, console included, and the console of the whole run
  holds the seven \<^verbatim>\<open>Not found\<close> lines of the manifest and the three closing lines,
  none for the QR directory.
\<close>

theorem absent_qr_directory_not_logged:
  "\<not> exists empty_tree qrcodes_dir
   \<and> copy_qrcodes plain_env \<lparr>root = empty_tree, out = []\<rparr> = Done \<lparr>root = empty_tree, out = []\<rparr>
   \<and> raised (create_package plain_env empty_tree) = None
   \<and> out (final (create_package plain_env empty_tree))
       = map NotFound (map fst copies) @ [CreatedReadme, PackageCreated zip_path, TotalSize]"
  by code_simp

text \<open>
  C8, amended: if the QR source directory is absent the scan is skipped silently: the run is
  the run of the other four stages, so it prints nothing for the QR directory, copies
  nothing for it and does not raise because of it.
\<close>

theorem absent_qr_directory_skipped:
  assumes "\<not> exists t qrcodes_dir"
  shows "create_package ev t =
           and_then (make_dirs ev \<lparr>root = t, out = []\<rparr>) (\<lambda>s1.
           and_then (copy_files ev copies s1) (\<lambda>s2.
           and_then (write_readme ev s2) (make_zip ev)))"
proof (cases "make_dirs ev \<lparr>root = t, out = []\<rparr>")
  case (Raised e s)
  then show ?thesis by (simp add: create_package_def)
next
  case (Done s1)
  from make_dirs_other [of qrcodes_dir ev "\<lparr>root = t, out = []\<rparr>"] qr_paths(4) Done assms
  have n1: "\<not> exists (root s1) qrcodes_dir" by (simp add: exists_def)
  show ?thesis
  proof (cases "copy_files ev copies s1")
    case (Raised e s)
    with Done show ?thesis by (simp add: create_package_def)
  next
    case Done2: (Done s2)
    have "\<forall>d\<in>set (map snd copies). \<not> prefix d qrcodes_dir" using qr_paths(8) by force
    from copy_files_frame [OF this, of ev s1] Done2 n1
    have "\<not> exists (root s2) qrcodes_dir" by (simp add: exists_def)
    with Done Done2 show ?thesis by (simp add: create_package_def copy_qrcodes_absent)
  qed
qed

theorem absent_qr_directory_skipped_witness:
  "\<not> exists empty_tree qrcodes_dir
   \<and> create_package plain_env empty_tree =
       and_then (make_dirs plain_env \<lparr>root = empty_tree, out = []\<rparr>) (\<lambda>s1.
       and_then (copy_files plain_env copies s1) (\<lambda>s2.
       and_then (write_readme plain_env s2) (make_zip plain_env)))"
proof -
  have ne: "\<not> exists empty_tree qrcodes_dir"
    by code_simp
  from absent_qr_directory_skipped [OF ne, of plain_env] ne show ?thesis by simp
qed

subsection \<open>C9 and C10: the README\<close>

text \<open>
  C9: after every run that returns, \<^verbatim>\<open>README.md\<close> is a file at the package root,
  whatever was there before; its content is the fixed text of the script, which contains the
  names of the five subdirectories.
\<close>

theorem readme_written:
  assumes "create_package ev t = Done s"
  shows "stat (root s) (package_dir @ [''README.md'']) = Some (IsFile (Bytes readme_content) (stamp ev))
       \<and> (\<forall>d\<in>set dirs. sublist d readme_content)"
  using readme_settled(1) [OF assms] sublist_readme by simp

theorem readme_written_witness:
  "create_package plain_env example_tree = Done (final (create_package plain_env example_tree))
   \<and> stat (root (final (create_package plain_env example_tree))) (package_dir @ [''README.md''])
       = Some (IsFile (Bytes readme_content) 0)
   \<and> sublist ''guides'' readme_content \<and> sublist ''worksheets'' readme_content
   \<and> sublist ''templates'' readme_content \<and> sublist ''qrcodes'' readme_content
   \<and> sublist ''resources'' readme_content"
proof -
  have run: "create_package plain_env example_tree
               = Done (final (create_package plain_env example_tree))"
    by (rule finished) code_simp
  from readme_written [OF run] run show ?thesis by (simp add: dirs_def plain_env_def)
qed

text \<open>
  C10: the data written to \<^verbatim>\<open>README.md\<close> is one constant. After any two runs
  that return, on any file systems and in any environments, the README of both holds the same
  bytes, those of the literal of the script.
\<close>

theorem readme_is_constant:
  assumes "create_package ev1 t1 = Done s1" and "create_package ev2 t2 = Done s2"
  shows "view (root s1) (package_dir @ [''README.md'']) = Some (Some (Bytes readme_content))
       \<and> view (root s2) (package_dir @ [''README.md'']) = view (root s1) (package_dir @ [''README.md''])"
  using readme_settled(1) [OF assms(1)] readme_settled(1) [OF assms(2)] by (simp add: view_def)

theorem readme_is_constant_witness:
  "create_package plain_env example_tree = Done (final (create_package plain_env example_tree))
   \<and> create_package plain_env blocked_tree = Done (final (create_package plain_env blocked_tree))
   \<and> view (root (final (create_package plain_env example_tree))) (package_dir @ [''README.md''])
     = Some (Some (Bytes readme_content))
   \<and> view (root (final (create_package plain_env blocked_tree))) (package_dir @ [''README.md''])
     = view (root (final (create_package plain_env example_tree))) (package_dir @ [''README.md''])"
proof -
  have run1: "create_package plain_env example_tree
               = Done (final (create_package plain_env example_tree))"
    by (rule finished) code_simp
  have run2: "create_package plain_env blocked_tree
               = Done (final (create_package plain_env blocked_tree))"
    by (rule finished) code_simp
  from readme_is_constant [OF run1 run2] run1 run2 show ?thesis by simp
qed

end
